theory Spec2Isabelle
  imports Main
begin

section \<open>Strings\<close>

text \<open>
  A JavaScript string is a sequence of code units. It is modelled as a \<^typ>\<open>string\<close>, one
  \<^typ>\<open>char\<close> per code unit, for the code units U+0000 to U+00FF (Basic Latin and Latin-1
  Supplement), which is what a \<^typ>\<open>char\<close> holds.

  \<open>String.prototype.trim\<close> removes white space and line terminators from both ends. Of
  the code units below U+0100 these are TAB, LF, VT, FF, CR, SPACE and NO-BREAK SPACE
  (U+00A0).
\<close>

definition isWhiteSpace :: "char \<Rightarrow> bool" where
  "isWhiteSpace c =
     (c \<in> set [CHR 0x09, CHR 0x0A, CHR 0x0B, CHR 0x0C, CHR 0x0D, CHR '' '', CHR 0xA0])"

definition trim :: "string \<Rightarrow> string" where
  "trim s = rev (dropWhile isWhiteSpace (rev (dropWhile isWhiteSpace s)))"

text \<open>
  \<open>String.prototype.toLowerCase\<close> maps every code unit through the Unicode lower-case
  mapping. Below U+0100 the letters with a mapping are \<open>A\<close> to \<open>Z\<close>, U+00C0 to U+00D6 and
  U+00D8 to U+00DE, each mapped to the code unit 0x20 above it; U+00D7 (the multiplication
  sign) and every other code unit are unchanged.
\<close>

definition lowerChar :: "char \<Rightarrow> char" where
  "lowerChar c =
     (case map_of
        (zip (''ABCDEFGHIJKLMNOPQRSTUVWXYZ'' @
              [CHR 0xC0, CHR 0xC1, CHR 0xC2, CHR 0xC3, CHR 0xC4, CHR 0xC5, CHR 0xC6,
               CHR 0xC7, CHR 0xC8, CHR 0xC9, CHR 0xCA, CHR 0xCB, CHR 0xCC, CHR 0xCD,
               CHR 0xCE, CHR 0xCF, CHR 0xD0, CHR 0xD1, CHR 0xD2, CHR 0xD3, CHR 0xD4,
               CHR 0xD5, CHR 0xD6, CHR 0xD8, CHR 0xD9, CHR 0xDA, CHR 0xDB, CHR 0xDC,
               CHR 0xDD, CHR 0xDE])
             (''abcdefghijklmnopqrstuvwxyz'' @
              [CHR 0xE0, CHR 0xE1, CHR 0xE2, CHR 0xE3, CHR 0xE4, CHR 0xE5, CHR 0xE6,
               CHR 0xE7, CHR 0xE8, CHR 0xE9, CHR 0xEA, CHR 0xEB, CHR 0xEC, CHR 0xED,
               CHR 0xEE, CHR 0xEF, CHR 0xF0, CHR 0xF1, CHR 0xF2, CHR 0xF3, CHR 0xF4,
               CHR 0xF5, CHR 0xF6, CHR 0xF8, CHR 0xF9, CHR 0xFA, CHR 0xFB, CHR 0xFC,
               CHR 0xFD, CHR 0xFE])) c of
        Some d \<Rightarrow> d
      | None \<Rightarrow> c)"

definition toLowerCase :: "string \<Rightarrow> string" where
  "toLowerCase s = map lowerChar s"

section \<open>Watchlist reconciler (ReportPrice)\<close>

text \<open>
  An argument that the source tests with \<open>Array.isArray\<close>: either an array of strings or
  anything else (\<open>undefined\<close> when a stored watchlist has no entry for the asset).
\<close>

datatype coins_arg = NotArray | Array "string list"

text \<open>
  The \<open>for (const item of items)\<close> loop of \<open>normalizeCoinList\<close>, with its two locals
  \<open>seen\<close> (a Set of lower-cased keys) and \<open>out\<close> (the array being built); each \<open>continue\<close>
  is a recursive call that leaves both unchanged.
\<close>

fun normalize_loop :: "string list \<Rightarrow> string set \<Rightarrow> string list \<Rightarrow> string list" where
  "normalize_loop [] seen out = out"
| "normalize_loop (item # items) seen out =
     (let coin = trim item in
      if coin = [] then normalize_loop items seen out
      else
        let key = toLowerCase coin in
        if key \<in> seen then normalize_loop items seen out
        else normalize_loop items (insert key seen) (out @ [coin]))"

definition normalizeCoinList :: "coins_arg \<Rightarrow> string list" where
  "normalizeCoinList items =
     (case items of
        NotArray \<Rightarrow> []
      | Array xs \<Rightarrow> normalize_loop xs {} [])"

text \<open>\<open>new Map(entries)\<close>: the entries are set in order, a later one replacing an earlier
  one with the same key.\<close>

definition js_new_Map :: "('k \<times> 'v) list \<Rightarrow> ('k \<rightharpoonup> 'v)" where
  "js_new_Map entries = fold (\<lambda>(k, v) m. m(k \<mapsto> v)) entries Map.empty"

text \<open>\<open>Boolean(v)\<close> for the result of \<open>Map.get\<close> on a map of strings: \<open>undefined\<close> and the
  empty string are falsy.\<close>

definition truthy :: "string option \<Rightarrow> bool" where
  "truthy v = (case v of None \<Rightarrow> False | Some s \<Rightarrow> s \<noteq> [])"

definition detectWatchlistFromLatest :: "coins_arg \<Rightarrow> coins_arg \<Rightarrow> coins_arg \<Rightarrow> string list" where
  "detectWatchlistFromLatest assetCoins usdCoins thbCoins =
     (let available = normalizeCoinList assetCoins in
      if length available = 0 then []
      else
        let usdSet = set (map toLowerCase (normalizeCoinList usdCoins));
            thbSet = set (map toLowerCase (normalizeCoinList thbCoins));
            overlap = filter (\<lambda>coin. let key = toLowerCase coin in key \<in> usdSet \<and> key \<in> thbSet)
                        available
        in if length overlap \<noteq> 0 then overlap
           else take (min (length available) 12) available)"

definition reconcileWatchlist ::
    "coins_arg \<Rightarrow> coins_arg \<Rightarrow> coins_arg \<Rightarrow> coins_arg \<Rightarrow> string list" where
  "reconcileWatchlist prevWatchlist assetCoins usdCoins thbCoins =
     (let available = normalizeCoinList assetCoins in
      if length available = 0 then []
      else
        let byKey = js_new_Map (map (\<lambda>coin. (toLowerCase coin, coin)) available);
            kept = map the (filter truthy
                     (map (\<lambda>coin. byKey (toLowerCase coin)) (normalizeCoinList prevWatchlist)))
        in if length kept \<noteq> 0 then kept
           else detectWatchlistFromLatest (Array available) usdCoins thbCoins)"

subsection \<open>Reference behaviour, in the words of the specification\<close>

text \<open>An element survives de-duplication when no earlier element has its key (and its key
  is not among those already \<open>seen\<close>).\<close>

definition firstSeenBy :: "('a \<Rightarrow> 'k) \<Rightarrow> 'k set \<Rightarrow> 'a list \<Rightarrow> 'a list" where
  "firstSeenBy key seen ys =
     [ys ! i. i \<leftarrow> [0..<length ys], key (ys ! i) \<notin> seen \<union> key ` set (take i ys)]"

text \<open>Trim every entry, drop the empty ones, keep the first entry of every
  case-insensitive key, in first-seen order.\<close>

definition normalize_spec :: "string list \<Rightarrow> string list" where
  "normalize_spec xs = firstSeenBy toLowerCase {} (filter (\<lambda>s. s \<noteq> []) (map trim xs))"

text \<open>The four steps as the specification words them: the previous watchlist is filtered
  (its own entries are kept), the universes are compared case-insensitively as they are.\<close>

definition reconcile_spec ::
    "string list \<Rightarrow> string list \<Rightarrow> string list \<Rightarrow> string list \<Rightarrow> string list" where
  "reconcile_spec previousWatchlist availableCoins usdUniverse thbUniverse =
     (let available = normalize_spec availableCoins in
      if available = [] then []
      else
        let kept = filter (\<lambda>c. toLowerCase c \<in> toLowerCase ` set available) previousWatchlist
        in if kept \<noteq> [] then kept
           else
             let both = filter (\<lambda>c. toLowerCase c \<in> toLowerCase ` set usdUniverse
                                   \<and> toLowerCase c \<in> toLowerCase ` set thbUniverse) available
             in if both \<noteq> [] then both else take 12 available)"

text \<open>The four steps with the two details of the source: the previous watchlist is
  normalized and each kept entry is the available coin with the same key, and the
  universes are normalized before they are compared.\<close>

definition reconcile_steps ::
    "coins_arg \<Rightarrow> coins_arg \<Rightarrow> coins_arg \<Rightarrow> coins_arg \<Rightarrow> string list" where
  "reconcile_steps previousWatchlist availableCoins usdUniverse thbUniverse =
     (let available = normalizeCoinList availableCoins in
      if available = [] then []
      else
        let kept = [a. c \<leftarrow> normalizeCoinList previousWatchlist, a \<leftarrow> available,
                       toLowerCase a = toLowerCase c]
        in if kept \<noteq> [] then kept
           else
             let both = filter (\<lambda>c. toLowerCase c \<in> toLowerCase ` set (normalizeCoinList usdUniverse)
                                   \<and> toLowerCase c \<in> toLowerCase ` set (normalizeCoinList thbUniverse))
                          available
             in if both \<noteq> [] then both else take 12 available)"

section \<open>Coin selection (ReportPrice)\<close>

text \<open>
  The state \<open>selected\<close> is a JavaScript \<open>Set\<close> of strings, which iterates in insertion
  order: a list without duplicates, oldest insertion first. \<open>toggleCoin\<close> copies the set,
  then deletes the coin when it is a member and adds it (at the end) when it is not.
\<close>

definition toggleCoin :: "string \<Rightarrow> string list \<Rightarrow> string list" where
  "toggleCoin c prev =
     (let key = c in
      if key \<in> set prev then filter (\<lambda>x. x \<noteq> key) prev else prev @ [key])"

text \<open>The \<open>for (const coin of selected)\<close> loop of \<open>orderedSelectedCoins\<close>, with its local
  \<open>ordered\<close>.\<close>

fun ordered_loop :: "(string \<rightharpoonup> string) \<Rightarrow> string list \<Rightarrow> string list \<Rightarrow> string list" where
  "ordered_loop availableByKey [] ordered = ordered"
| "ordered_loop availableByKey (coin # rest) ordered =
     (let hit = availableByKey (toLowerCase coin) in
      if truthy hit then ordered_loop availableByKey rest (ordered @ [the hit])
      else ordered_loop availableByKey rest ordered)"

definition orderedSelectedCoins :: "string list \<Rightarrow> string list \<Rightarrow> string list" where
  "orderedSelectedCoins availableCoins selected =
     (if length selected = 0 \<or> length availableCoins = 0 then []
      else
        let availableByKey = js_new_Map (map (\<lambda>coin. (toLowerCase coin, coin)) availableCoins)
        in ordered_loop availableByKey selected [])"

text \<open>\<open>coins.join(",")\<close>, the value of the form field \<open>coins\<close> of a preview or download
  request.\<close>

fun join_comma :: "string list \<Rightarrow> string" where
  "join_comma [] = []"
| "join_comma [x] = x"
| "join_comma (x # y # ys) = x @ '','' @ join_comma (y # ys)"

section \<open>Download file name (App and ReportPrice)\<close>

definition dquote :: char where
  "dquote = CHR 0x22"

definition filename_lit :: string where
  "filename_lit = ''filename='' @ [dquote]"

text \<open>
  The regular expression \<open>/filename="([^"]+)"/\<close> tried at the start of \<open>s\<close>: the literal,
  then the longest run of characters other than the double quote, which must not be
  empty and must be followed by a double quote. The run cannot be shortened (a shorter
  one is followed by a character of the run), so there is no backtracking to model.
\<close>

definition match_here :: "string \<Rightarrow> string option" where
  "match_here s =
     (if take (length filename_lit) s = filename_lit then
        let rest = drop (length filename_lit) s;
            name = takeWhile (\<lambda>c. c \<noteq> dquote) rest;
            after = dropWhile (\<lambda>c. c \<noteq> dquote) rest
        in if name \<noteq> [] \<and> after \<noteq> [] then Some name else None
      else None)"

text \<open>\<open>RegExp.exec\<close> and \<open>String.match\<close> without the \<open>g\<close> flag: the match at the leftmost
  start index that has one, \<open>null\<close> when none has; the result is capture group 1.\<close>

fun regex_exec :: "string \<Rightarrow> string option" where
  "regex_exec [] = match_here []"
| "regex_exec (c # cs) =
     (case match_here (c # cs) of
        Some name \<Rightarrow> Some name
      | None \<Rightarrow> regex_exec cs)"

text \<open>The argument is the result of \<open>res.headers.get("content-disposition")\<close>: \<open>null\<close>
  (here \<open>None\<close>) when the response has no such header.\<close>

definition parseFilenameFromDisposition :: "string option \<Rightarrow> string option" where
  "parseFilenameFromDisposition disposition =
     (case disposition of
        None \<Rightarrow> None
      | Some d \<Rightarrow> if d = [] then None else regex_exec d)"

text \<open>\<open>onClean\<close> of the ETL flow: \<open>parseFilenameFromDisposition(...) || "CLEAN.csv"\<close>.\<close>

definition etl_download_filename :: "string option \<Rightarrow> string" where
  "etl_download_filename header =
     (case parseFilenameFromDisposition header of
        None \<Rightarrow> ''CLEAN.csv''
      | Some name \<Rightarrow> if name = [] then ''CLEAN.csv'' else name)"

text \<open>\<open>handleDownload\<close> of the report flow: \<open>dispo = header || ""\<close>, then
  \<open>m ? m[1] : "REPORT_CLEAN.xlsx"\<close>.\<close>

definition report_download_filename :: "string option \<Rightarrow> string" where
  "report_download_filename header =
     (let dispo = (case header of None \<Rightarrow> [] | Some d \<Rightarrow> d) in
      case regex_exec dispo of
        Some name \<Rightarrow> name
      | None \<Rightarrow> ''REPORT_CLEAN.xlsx'')"

text \<open>The text within \<open>filename="..."\<close> at index \<open>i\<close> of a header: the literal starts at
  \<open>i\<close>, the name is not empty, has no double quote and is followed by one.\<close>

definition filename_at :: "string \<Rightarrow> nat \<Rightarrow> string \<Rightarrow> bool" where
  "filename_at h i name \<longleftrightarrow>
     i \<le> length h \<and> name \<noteq> [] \<and> dquote \<notin> set name
     \<and> take (length filename_lit + length name + 1) (drop i h) = filename_lit @ name @ [dquote]"

section \<open>Theme preference (ReportPrice)\<close>

text \<open>
  What \<open>readTheme\<close> reads of a DOM element: the value of its \<open>data-theme\<close> attribute
  (\<open>getAttribute\<close> returns \<open>null\<close> when it has none) and its class list.
\<close>

record element =
  dataTheme :: "string option"
  classList :: "string list"

text \<open>
  The environment of \<open>readTheme\<close>: \<open>localStorage\<close> (\<open>None\<close> when access to it throws, as
  it does when storage is disabled; otherwise the stored items), the document element,
  \<open>document.body\<close> (which may be \<open>null\<close>), the element with id \<open>root\<close> and its first
  element child when they exist, and \<open>window.matchMedia\<close> (\<open>None\<close> when the function is
  missing, otherwise whether \<open>(prefers-color-scheme: dark)\<close> matches).
\<close>

record browser =
  localStorage :: "(string \<rightharpoonup> string) option"

record theme_env = browser +
  documentElement :: element
  body :: "element option"
  rootElement :: "element option"
  rootFirstChild :: "element option"
  matchMedia :: "bool option"

definition THEME_KEYS :: "string list" where
  "THEME_KEYS = [''theme'', ''vite-ui-theme'', ''eglc_theme'']"

text \<open>The four nodes are different nodes of the document, so the \<open>new Set\<close> that removes
  repeated nodes removes nothing; \<open>filter(Boolean)\<close> drops a \<open>null\<close> body.\<close>

definition themeTargets :: "theme_env \<Rightarrow> element list" where
  "themeTargets env =
     documentElement env
       # (case body env of None \<Rightarrow> [] | Some b \<Rightarrow> [b])
       @ (case rootElement env of
            None \<Rightarrow> []
          | Some root \<Rightarrow> root # (case rootFirstChild env of None \<Rightarrow> [] | Some ch \<Rightarrow> [ch]))"

definition validTheme :: "string option \<Rightarrow> bool" where
  "validTheme v \<longleftrightarrow> v = Some ''dark'' \<or> v = Some ''light''"

fun scanDataTheme :: "element list \<Rightarrow> string option" where
  "scanDataTheme [] = None"
| "scanDataTheme (el # els) =
     (let v = dataTheme el in if validTheme v then v else scanDataTheme els)"

fun scanStorageKeys :: "(string \<rightharpoonup> string) \<Rightarrow> string list \<Rightarrow> string option" where
  "scanStorageKeys storage [] = None"
| "scanStorageKeys storage (k # ks) =
     (let v = storage k in if validTheme v then v else scanStorageKeys storage ks)"

text \<open>How the \<open>try\<close> block of \<open>readTheme\<close> ends: with a \<open>return\<close>, by falling out of both
  loops, or in the \<open>catch\<close> clause that swallows the exception.\<close>

datatype try_result = Returned string | Completed | Caught

definition readTheme_try :: "theme_env \<Rightarrow> try_result" where
  "readTheme_try env =
     (case scanDataTheme (themeTargets env) of
        Some v \<Rightarrow> Returned v
      | None \<Rightarrow>
         (case localStorage env of
            None \<Rightarrow> Caught
          | Some storage \<Rightarrow>
             (case scanStorageKeys storage THEME_KEYS of
                Some v \<Rightarrow> Returned v
              | None \<Rightarrow> Completed)))"

definition readTheme :: "theme_env \<Rightarrow> string" where
  "readTheme env =
     (case readTheme_try env of
        Returned v \<Rightarrow> v
      | _ \<Rightarrow>
         (let anyDark = list_ex (\<lambda>el. ''dark'' \<in> set (classList el)) (themeTargets env) in
          if anyDark then ''dark''
          else if (case matchMedia env of None \<Rightarrow> False | Some matches \<Rightarrow> matches) then ''dark''
          else ''light''))"

section \<open>HTTP replies and JavaScript errors\<close>

text \<open>An \<open>Error\<close> object, as far as the handlers look at it: its \<open>name\<close> and its
  \<open>message\<close>.\<close>

datatype js_error = JsError (err_name: string) (err_message: string)

text \<open>\<open>String(e.message || e)\<close>: the message when it is not empty, otherwise
  \<open>String(e)\<close>, which for an error with an empty message is its name.\<close>

definition error_text :: "js_error \<Rightarrow> string" where
  "error_text e = (if err_message e \<noteq> [] then err_message e else err_name e)"

text \<open>The body of a reply as \<open>res.json()\<close> sees it: not JSON (the promise rejects with a
  \<open>SyntaxError\<close> that has the given message) or the parsed value.\<close>

datatype 'p body = Malformed string | Parsed 'p

text \<open>How a \<open>fetch\<close> ends: the promise rejects (network failure, or an \<open>AbortError\<close> when
  the signal is aborted), or it resolves to a reply with a status and a body.\<close>

datatype 'b response = Rejected js_error | Reply nat 'b

definition res_ok :: "nat \<Rightarrow> bool" where
  "res_ok status \<longleftrightarrow> 200 \<le> status \<and> status \<le> 299"

fun show_nat :: "nat \<Rightarrow> string" where
  "show_nat n =
     (if n < 10 then [''0123456789'' ! n]
      else show_nat (n div 10) @ [''0123456789'' ! (n mod 10)])"

text \<open>\<open>payload?.detail || `HTTP ${res.status}`\<close>.\<close>

definition detail_or_status :: "string option \<Rightarrow> nat \<Rightarrow> string" where
  "detail_or_status d status =
     (case d of
        None \<Rightarrow> ''HTTP '' @ show_nat status
      | Some text \<Rightarrow> if text \<noteq> [] then text else ''HTTP '' @ show_nat status)"

record error_payload =
  detail :: "string option"

section \<open>Token store and session check (AuthBar)\<close>

definition TOKEN_KEY :: string where
  "TOKEN_KEY = ''eglc_auth_token''"

text \<open>\<open>localStorage.getItem(TOKEN_KEY) || ""\<close> inside \<open>try\<close>; the \<open>catch\<close> returns \<open>""\<close>.\<close>

definition readStoredToken :: "'a browser_scheme \<Rightarrow> string" where
  "readStoredToken b =
     (case localStorage b of
        None \<Rightarrow> []
      | Some items \<Rightarrow> (case items TOKEN_KEY of None \<Rightarrow> [] | Some v \<Rightarrow> v))"

text \<open>The state of the \<open>AuthBar\<close> component, with the document's storage: \<open>token\<close>,
  \<open>user\<close> (an object, here its user name, or \<open>null\<close>) and \<open>checkingSession\<close>.\<close>

record auth_state = browser +
  token :: string
  user :: "string option"
  checkingSession :: bool

text \<open>The listener of \<open>AUTH_EVENT\<close> that the mounted component registers.\<close>

definition onAuthSync :: "auth_state \<Rightarrow> auth_state" where
  "onAuthSync s = s\<lparr>token := readStoredToken s\<rparr>"

text \<open>\<open>writeStoredToken\<close>: set or remove the item (an exception is swallowed), then
  dispatch \<open>AUTH_EVENT\<close>, which runs the listener before \<open>dispatchEvent\<close> returns.\<close>

definition writeStoredToken :: "string \<Rightarrow> auth_state \<Rightarrow> auth_state" where
  "writeStoredToken tok s =
     (let s1 = (case localStorage s of
                  None \<Rightarrow> s
                | Some items \<Rightarrow>
                    if tok \<noteq> [] then s\<lparr>localStorage := Some (items(TOKEN_KEY \<mapsto> tok))\<rparr>
                    else s\<lparr>localStorage := Some (items(TOKEN_KEY := None))\<rparr>)
      in onAuthSync s1)"

record me_payload = error_payload +
  user_field :: "string option"

text \<open>\<open>requestMe\<close>: a body that is not JSON becomes \<open>{}\<close>; a status outside 2xx throws;
  otherwise the result is \<open>payload?.user || null\<close>. \<open>Inl\<close> is a rejected promise.\<close>

definition requestMe :: "me_payload body response \<Rightarrow> js_error + string option" where
  "requestMe r =
     (case r of
        Rejected e \<Rightarrow> Inl e
      | Reply status b \<Rightarrow>
          let payload = (case b of
                           Malformed m \<Rightarrow> \<lparr>detail = None, user_field = None\<rparr>
                         | Parsed p \<Rightarrow> p)
          in if \<not> res_ok status
             then Inl (JsError ''Error'' (detail_or_status (detail payload) status))
             else Inr (user_field payload))"

text \<open>The body of the session-check effect, run when \<open>token\<close> changes, up to the call of
  \<open>requestMe\<close>.\<close>

definition session_effect :: "auth_state \<Rightarrow> auth_state" where
  "session_effect s =
     (if token s = [] then s\<lparr>user := None\<rparr> else s\<lparr>checkingSession := True\<rparr>)"

text \<open>The \<open>then\<close>, \<open>catch\<close> and \<open>finally\<close> handlers of the effect, run when the request
  settles. \<open>alive\<close> is the effect's local flag, which its cleanup sets to \<open>false\<close> when the
  token changes or the component unmounts.\<close>

definition session_settle :: "bool \<Rightarrow> me_payload body response \<Rightarrow> auth_state \<Rightarrow> auth_state" where
  "session_settle alive r s =
     (case requestMe r of
        Inr nextUser \<Rightarrow>
          if \<not> alive then s
          else (s\<lparr>user := nextUser\<rparr>)\<lparr>checkingSession := False\<rparr>
      | Inl e \<Rightarrow>
          if \<not> alive then s
          else (writeStoredToken [] (s\<lparr>user := None, token := []\<rparr>))\<lparr>checkingSession := False\<rparr>)"

section \<open>Preview request controller, ETL flow (App)\<close>

text \<open>
  What both flows keep: the counter \<open>previewReqRef.current\<close>, and the abort controllers
  that have been aborted. Every request makes one controller; a controller is named by
  the id of its request.
\<close>

record request_refs =
  previewReqRef :: nat
  aborted :: "nat set"

record table_rows =
  rows :: "string list list"

record etl_table = table_rows +
  columns :: "string list"

record validation_entry =
  row :: nat
  field :: string
  message :: string

record validation_report =
  error_count :: nat
  warning_count :: nat
  errors :: "validation_entry list"
  warnings :: "validation_entry list"

text \<open>The preview JSON \<open>{summary, validation, preview: {raw, clean}}\<close>; the summary is
  opaque.\<close>

record preview_data =
  summary :: "string option"
  validation :: validation_report
  raw :: etl_table
  clean :: etl_table

text \<open>The state of \<open>App\<close> that the preview effect touches; \<open>cleanup\<close> is the controller that
  the cleanup function returned by the last run of the effect will abort, if that run
  returned one.\<close>

record etl_state = request_refs +
  previewData :: "preview_data option"
  previewLoading :: bool
  cleanup :: "nat option"

definition etl_init :: etl_state where
  "etl_init = \<lparr>previewReqRef = 0, aborted = {}, previewData = None, previewLoading = False,
                cleanup = None\<rparr>"

text \<open>One run of the effect with dependencies \<open>[file, i18n.language]\<close>: React first runs the
  cleanup of the previous run (\<open>ctrl.abort()\<close>), then the body, which returns early when
  there is no file and otherwise takes the next request id, makes the controller, and
  starts the request, setting \<open>previewLoading\<close> before the first \<open>await\<close>.\<close>

definition etl_effect :: "nat option \<Rightarrow> etl_state \<Rightarrow> etl_state" where
  "etl_effect file s =
     (let s1 = (case cleanup s of
                  None \<Rightarrow> s
                | Some ctrl \<Rightarrow> s\<lparr>aborted := insert ctrl (aborted s), cleanup := None\<rparr>)
      in case file of
           None \<Rightarrow> s1\<lparr>previewData := None\<rparr>
         | Some f \<Rightarrow>
             let requestId = previewReqRef s1 + 1
             in s1\<lparr>previewReqRef := requestId, previewLoading := True, cleanup := Some requestId\<rparr>)"

text \<open>The reply body of \<open>/api/preview\<close>: its text and what \<open>res.json()\<close> makes of it. The
  \<open>try\<close> block throws \<open>new Error(await res.text())\<close> on a status outside 2xx.\<close>

definition etl_try :: "(string \<times> preview_data body) response \<Rightarrow> js_error + preview_data" where
  "etl_try r =
     (case r of
        Rejected e \<Rightarrow> Inl e
      | Reply status b \<Rightarrow>
          if \<not> res_ok status then Inl (JsError ''Error'' (fst b))
          else (case snd b of
                  Malformed m \<Rightarrow> Inl (JsError ''SyntaxError'' m)
                | Parsed json \<Rightarrow> Inr json))"

definition synthetic_preview :: "string \<Rightarrow> preview_data" where
  "synthetic_preview msg =
     \<lparr>summary = None,
      validation = \<lparr>error_count = 1, warning_count = 0,
                    errors = [\<lparr>row = 1, field = ''Preview'', message = msg\<rparr>],
                    warnings = []\<rparr>,
      raw = \<lparr>rows = [], columns = []\<rparr>,
      clean = \<lparr>rows = [], columns = []\<rparr>\<rparr>"

text \<open>The rest of the async function of request \<open>requestId\<close>, run when its awaits have
  ended with \<open>r\<close>: the tail of the \<open>try\<close> block, the \<open>catch\<close> clause, then \<open>finally\<close>.\<close>

definition etl_settle ::
    "nat \<Rightarrow> (string \<times> preview_data body) response \<Rightarrow> etl_state \<Rightarrow> etl_state" where
  "etl_settle requestId r s =
     (let s1 = (case etl_try r of
                  Inr json \<Rightarrow>
                    if previewReqRef s \<noteq> requestId then s
                    else s\<lparr>previewData := Some json\<rparr>
                | Inl e \<Rightarrow>
                    if err_name e \<noteq> ''AbortError'' \<and> requestId \<notin> aborted s then
                      if previewReqRef s \<noteq> requestId then s
                      else s\<lparr>previewData := Some (synthetic_preview (error_text e))\<rparr>
                    else s)
      in if previewReqRef s1 = requestId then s1\<lparr>previewLoading := False\<rparr> else s1)"

text \<open>Unmounting \<open>App\<close> runs the cleanup of the last run of the effect.\<close>

definition etl_unmount :: "etl_state \<Rightarrow> etl_state" where
  "etl_unmount s =
     (case cleanup s of
        None \<Rightarrow> s
      | Some ctrl \<Rightarrow> s\<lparr>aborted := insert ctrl (aborted s), cleanup := None\<rparr>)"

text \<open>The states of the ETL flow: effect runs, the unmount and the settling of issued
  requests, from the initial state.\<close>

inductive etl_reachable :: "etl_state \<Rightarrow> bool" where
  etl_start: "etl_reachable etl_init"
| etl_run: "etl_reachable s \<Longrightarrow> etl_reachable (etl_effect file s)"
| etl_gone: "etl_reachable s \<Longrightarrow> etl_reachable (etl_unmount s)"
| etl_reply: "etl_reachable s \<Longrightarrow> 1 \<le> requestId \<Longrightarrow> requestId \<le> previewReqRef s \<Longrightarrow>
     etl_reachable (etl_settle requestId r s)"

section \<open>Preview request controller, report flow (ReportPrice)\<close>

record rp_table = table_rows +
  headers :: "string list"

definition EMPTY_PREVIEW :: rp_table where
  "EMPTY_PREVIEW = \<lparr>rows = [], headers = []\<rparr>"

text \<open>The preview JSON \<open>{detail, meta, coins: {USD, THB}, rawPreview, cleanPreview}\<close>, every
  member optional; \<open>meta\<close> is opaque.\<close>

record rp_payload = error_payload +
  payload_meta :: "string option"
  payload_USD :: "string list option"
  payload_THB :: "string list option"
  payload_rawPreview :: "rp_table option"
  payload_cleanPreview :: "rp_table option"

definition empty_payload :: rp_payload where
  "empty_payload = \<lparr>detail = None, payload_meta = None, payload_USD = None,
     payload_THB = None, payload_rawPreview = None, payload_cleanPreview = None\<rparr>"

text \<open>The object in \<open>prevPreviewConfigRef\<close>; a file is named by a number, \<open>null\<close> is
  \<open>None\<close>.\<close>

record preview_config =
  cfg_file :: "nat option"
  cfg_asset :: string
  cfg_includeBot :: bool

text \<open>The arguments a timer callback passes to \<open>callPreview\<close>.\<close>

record preview_args =
  arg_file :: "nat option"
  arg_asset :: string
  arg_includeBot :: bool
  arg_coins :: "string list"
  arg_showLoader :: bool

text \<open>The form data of a request to \<open>/api/report/preview\<close> (the constant fields
  \<open>limit_rows\<close> and \<open>limit_cols\<close> left out) and the controller whose signal it carries.\<close>

record preview_request =
  form_file :: nat
  form_asset :: string
  form_include_bot :: bool
  form_coins :: string
  signal :: nat

text \<open>
  The state of \<open>ReportPrice\<close> that previews touch, with the pending timer of the
  scheduling effect (when it is due, and what it will call), the clock in milliseconds,
  and the log of the requests sent, oldest first.
\<close>

record report_state = request_refs +
  abortRef :: "nat option"
  loadingPreview :: bool
  errorMsg :: string
  meta :: "string option"
  coinsUSD :: "string list"
  coinsTHB :: "string list"
  rawPreview :: rp_table
  cleanPreview :: rp_table
  prevPreviewConfigRef :: preview_config
  timer :: "(nat \<times> preview_args) option"
  clock :: nat
  sent :: "preview_request list"

definition report_init :: report_state where
  "report_init = \<lparr>previewReqRef = 0, aborted = {}, abortRef = None, loadingPreview = False,
     errorMsg = [], meta = None, coinsUSD = [], coinsTHB = [],
     rawPreview = EMPTY_PREVIEW, cleanPreview = EMPTY_PREVIEW,
     prevPreviewConfigRef = \<lparr>cfg_file = None, cfg_asset = ''USD'', cfg_includeBot = True\<rparr>,
     timer = None, clock = 0, sent = []\<rparr>"

text \<open>\<open>callPreview\<close> up to its first \<open>await\<close>: the next request id, the abort of the
  controller in \<open>abortRef\<close>, a new controller, the loading flag, the cleared error message,
  and the \<open>fetch\<close>.\<close>

definition callPreview :: "preview_args \<Rightarrow> report_state \<Rightarrow> report_state" where
  "callPreview a s =
     (case arg_file a of
        None \<Rightarrow> s
      | Some currentFile \<Rightarrow>
          let requestId = previewReqRef s + 1;
              s1 = s\<lparr>previewReqRef := requestId\<rparr>;
              s2 = (case abortRef s1 of
                      None \<Rightarrow> s1
                    | Some ctrl \<Rightarrow> s1\<lparr>aborted := insert ctrl (aborted s1)\<rparr>);
              s3 = s2\<lparr>abortRef := Some requestId\<rparr>;
              s4 = (if arg_showLoader a then s3\<lparr>loadingPreview := True\<rparr> else s3);
              s5 = s4\<lparr>errorMsg := []\<rparr>
          in s5\<lparr>sent := sent s5 @
                 [\<lparr>form_file = currentFile, form_asset = arg_asset a,
                   form_include_bot = arg_includeBot a,
                   form_coins = join_comma (arg_coins a), signal = requestId\<rparr>]\<rparr>)"

text \<open>The awaits of the \<open>try\<close> block: a body that is not JSON becomes \<open>{}\<close>, a status
  outside 2xx throws \<open>new Error(payload?.detail || `HTTP ${res.status}`)\<close>.\<close>

definition report_try :: "rp_payload body response \<Rightarrow> js_error + rp_payload" where
  "report_try r =
     (case r of
        Rejected e \<Rightarrow> Inl e
      | Reply status b \<Rightarrow>
          let payload = (case b of Malformed m \<Rightarrow> empty_payload | Parsed p \<Rightarrow> p)
          in if \<not> res_ok status
             then Inl (JsError ''Error'' (detail_or_status (detail payload) status))
             else Inr payload)"

definition or_else :: "'a option \<Rightarrow> 'a \<Rightarrow> 'a" where
  "or_else v d = (case v of None \<Rightarrow> d | Some x \<Rightarrow> x)"

text \<open>The rest of \<open>callPreview\<close> for request \<open>requestId\<close>, run when its awaits have ended
  with \<open>r\<close>. The two coin lists are set to the payload's lists (the source keeps the old
  array when it has the same elements).\<close>

definition report_settle :: "nat \<Rightarrow> rp_payload body response \<Rightarrow> report_state \<Rightarrow> report_state" where
  "report_settle requestId r s =
     (let s1 = (case report_try r of
                  Inr payload \<Rightarrow>
                    if previewReqRef s \<noteq> requestId then s
                    else s\<lparr>meta := payload_meta payload,
                           coinsUSD := or_else (payload_USD payload) [],
                           coinsTHB := or_else (payload_THB payload) [],
                           rawPreview := or_else (payload_rawPreview payload) EMPTY_PREVIEW,
                           cleanPreview := or_else (payload_cleanPreview payload) EMPTY_PREVIEW\<rparr>
                | Inl e \<Rightarrow>
                    if err_name e = ''AbortError'' \<or> requestId \<in> aborted s then s
                    else if previewReqRef s \<noteq> requestId then s
                    else s\<lparr>errorMsg := error_text e\<rparr>)
      in if previewReqRef s1 = requestId then s1\<lparr>loadingPreview := False\<rparr> else s1)"

text \<open>
  One run of the scheduling effect, for the values of \<open>file\<close>, \<open>asset\<close>, \<open>includeBot\<close>
  and \<open>selected\<close> of the render: the cleanup of the previous run clears its timer; the
  body records the configuration and, when there is a file, sets a timer of 0 or 260
  milliseconds whose callback calls \<open>callPreview\<close> with the coins of this render.
\<close>

definition schedule_effect ::
    "nat option \<Rightarrow> string \<Rightarrow> bool \<Rightarrow> string list \<Rightarrow> report_state \<Rightarrow> report_state" where
  "schedule_effect file asset includeBot selected s =
     (let s0 = s\<lparr>timer := None\<rparr> in
      case file of
        None \<Rightarrow> s0\<lparr>prevPreviewConfigRef :=
                     \<lparr>cfg_file = None, cfg_asset = asset, cfg_includeBot = includeBot\<rparr>\<rparr>
      | Some f \<Rightarrow>
          let prevCfg = prevPreviewConfigRef s0;
              isBlockingPreview = (cfg_file prevCfg \<noteq> file \<or> cfg_asset prevCfg \<noteq> asset
                                   \<or> cfg_includeBot prevCfg \<noteq> includeBot);
              s1 = s0\<lparr>prevPreviewConfigRef :=
                        \<lparr>cfg_file = file, cfg_asset = asset, cfg_includeBot = includeBot\<rparr>\<rparr>;
              delay = (if isBlockingPreview then 0 else 260);
              availableCoins = (if asset = ''USD'' then coinsUSD s1 else coinsTHB s1);
              selectedCoins = (if length selected = 0 then []
                               else orderedSelectedCoins availableCoins selected)
          in s1\<lparr>timer := Some (clock s1 + delay,
                   \<lparr>arg_file = file, arg_asset = asset, arg_includeBot = includeBot,
                    arg_coins = selectedCoins, arg_showLoader = isBlockingPreview\<rparr>)\<rparr>)"

text \<open>The coins a run of the scheduling effect passes on:
  \<open>selected.size === 0 ? [] : orderedSelectedCoins\<close>, where the memo is computed from the
  available coins of the asset.\<close>

definition selectedCoins :: "string \<Rightarrow> string list \<Rightarrow> report_state \<Rightarrow> string list" where
  "selectedCoins asset selected s =
     (if length selected = 0 then []
      else orderedSelectedCoins (if asset = ''USD'' then coinsUSD s else coinsTHB s) selected)"

text \<open>Time passes: the clock advances by \<open>d\<close> milliseconds and a timer that is due by
  then runs its callback.\<close>

definition elapse :: "nat \<Rightarrow> report_state \<Rightarrow> report_state" where
  "elapse d s =
     (let s1 = s\<lparr>clock := clock s + d\<rparr> in
      case timer s1 of
        None \<Rightarrow> s1
      | Some (due, a) \<Rightarrow> if due \<le> clock s1 then callPreview a (s1\<lparr>timer := None\<rparr>) else s1)"

text \<open>A burst of selection changes with the same file, asset and \<open>includeBot\<close>: each
  change runs the effect, then the given time passes before the next.\<close>

fun burst ::
    "(string list \<times> nat) list \<Rightarrow> nat option \<Rightarrow> string \<Rightarrow> bool \<Rightarrow> report_state \<Rightarrow> report_state" where
  "burst [] file asset includeBot s = s"
| "burst ((selected, gap) # changes) file asset includeBot s =
     burst changes file asset includeBot
       (elapse gap (schedule_effect file asset includeBot selected s))"

text \<open>Unmounting \<open>ReportPrice\<close>: \<open>abortRef.current?.abort()\<close>.\<close>

definition report_unmount :: "report_state \<Rightarrow> report_state" where
  "report_unmount s =
     (case abortRef s of
        None \<Rightarrow> s
      | Some ctrl \<Rightarrow> s\<lparr>aborted := insert ctrl (aborted s)\<rparr>)"

text \<open>The states of the report flow: effect runs, time passing, the unmount and the
  settling of issued requests, from the initial state.\<close>

inductive report_reachable :: "report_state \<Rightarrow> bool" where
  report_start: "report_reachable report_init"
| report_gone: "report_reachable s \<Longrightarrow> report_reachable (report_unmount s)"
| report_change: "report_reachable s \<Longrightarrow>
     report_reachable (schedule_effect file asset includeBot selected s)"
| report_time: "report_reachable s \<Longrightarrow> report_reachable (elapse d s)"
| report_reply: "report_reachable s \<Longrightarrow> 1 \<le> requestId \<Longrightarrow> requestId \<le> previewReqRef s \<Longrightarrow>
     report_reachable (report_settle requestId r s)"

section \<open>Properties of the watchlist reconciler\<close>

lemma firstSeenBy_Nil: "firstSeenBy key seen [] = []"
  by (simp add: firstSeenBy_def)

lemma firstSeenBy_Cons:
  "firstSeenBy key seen (y # ys) =
     (if key y \<in> seen then firstSeenBy key seen ys
      else y # firstSeenBy key (insert (key y) seen) ys)"
proof -
  have u: "[0..<length (y # ys)] = 0 # map Suc [0..<length ys]"
    by (simp add: upt_conv_Cons map_Suc_upt del: upt_Suc)
  show ?thesis
    unfolding firstSeenBy_def u
    by (auto simp: o_def intro!: arg_cong[where f=concat] map_cong)
qed

lemma normalize_loop_firstSeenBy:
  "normalize_loop xs seen out =
     out @ firstSeenBy toLowerCase seen (filter (\<lambda>s. s \<noteq> []) (map trim xs))"
  by (induction xs arbitrary: seen out) (simp_all add: firstSeenBy_Nil firstSeenBy_Cons Let_def)

lemma dropWhile_keeps: "xs \<noteq> [] \<Longrightarrow> \<not> P (hd xs) \<Longrightarrow> dropWhile P xs = xs"
  by (cases xs) auto

lemma trim_idem: "trim (trim s) = trim s"
proof -
  define t where "t = dropWhile isWhiteSpace s"
  define u where "u = dropWhile isWhiteSpace (rev t)"
  have tu: "trim s = rev u" by (simp add: trim_def t_def u_def)
  show ?thesis
  proof (cases "u = []")
    case True
    then have e: "trim s = []" by (simp add: tu)
    show ?thesis unfolding e by (simp add: trim_def)
  next
    case False
    have hu: "\<not> isWhiteSpace (hd u)"
      using False unfolding u_def by (metis hd_dropWhile)
    obtain p where p: "rev t = p @ u"
      unfolding u_def by (metis takeWhile_dropWhile_id)
    have tne: "t \<noteq> []" using False p by auto
    have "last u = last (rev t)" using p False by simp
    also have "\<dots> = hd t" using tne by (simp add: last_rev)
    finally have lu: "\<not> isWhiteSpace (last u)"
      using tne unfolding t_def by (metis hd_dropWhile)
    have "hd (rev u) = last u" using False by (simp add: hd_rev)
    then have d1: "dropWhile isWhiteSpace (rev u) = rev u"
      using lu False by (intro dropWhile_keeps) auto
    have d2: "dropWhile isWhiteSpace u = u"
      using hu False by (intro dropWhile_keeps) auto
    show ?thesis by (simp add: tu trim_def[of "rev u"] d1 d2)
  qed
qed

lemma firstSeenBy_subset: "set (firstSeenBy key seen ys) \<subseteq> set ys"
  by (induction ys arbitrary: seen) (auto simp: firstSeenBy_Nil firstSeenBy_Cons split: if_splits)

lemma firstSeenBy_keys: "key ` set (firstSeenBy key seen ys) \<inter> seen = {}"
  by (induction ys arbitrary: seen) (auto simp: firstSeenBy_Nil firstSeenBy_Cons split: if_splits)

lemma firstSeenBy_distinct: "distinct (map key (firstSeenBy key seen ys))"
proof (induction ys arbitrary: seen)
  case Nil
  show ?case by (simp add: firstSeenBy_Nil)
next
  case (Cons y ys)
  show ?case
    using Cons[of seen] Cons[of "insert (key y) seen"]
      firstSeenBy_keys[of key "insert (key y) seen" ys]
    by (auto simp: firstSeenBy_Cons)
qed

lemma firstSeenBy_id:
  "distinct (map key ys) \<Longrightarrow> key ` set ys \<inter> seen = {} \<Longrightarrow> firstSeenBy key seen ys = ys"
  by (induction ys arbitrary: seen) (auto simp: firstSeenBy_Nil firstSeenBy_Cons)

lemma normalize_elems:
  assumes "x \<in> set (normalizeCoinList v)"
  shows "trim x = x \<and> x \<noteq> []"
proof (cases v)
  case NotArray
  with assms show ?thesis by (simp add: normalizeCoinList_def)
next
  case (Array xs)
  with assms have "x \<in> set (firstSeenBy toLowerCase {} (filter (\<lambda>s. s \<noteq> []) (map trim xs)))"
    by (simp add: normalizeCoinList_def normalize_loop_firstSeenBy)
  then have "x \<in> set (filter (\<lambda>s. s \<noteq> []) (map trim xs))"
    using firstSeenBy_subset by fastforce
  then show ?thesis by (auto simp: trim_idem)
qed

lemma normalize_distinct: "distinct (map toLowerCase (normalizeCoinList v))"
  by (cases v) (simp_all add: normalizeCoinList_def normalize_loop_firstSeenBy firstSeenBy_distinct)

lemma normalize_idem: "normalizeCoinList (Array (normalizeCoinList v)) = normalizeCoinList v"
proof -
  let ?r = "normalizeCoinList v"
  have "filter (\<lambda>s. s \<noteq> []) (map trim ?r) = ?r"
    using normalize_elems[of _ v] by (induction ?r) (auto simp: filter_id_conv map_idI)
  then show ?thesis
    using normalize_distinct[of v]
    by (simp add: normalizeCoinList_def[of "Array ?r"] normalize_loop_firstSeenBy firstSeenBy_id)
qed

lemma normalize_latin1_examples:
  "normalizeCoinList (Array [CHR 0xA0 # ''BTC'' @ [CHR 0xA0], ''BTC'']) = [''BTC'']
   \<and> normalizeCoinList (Array [CHR 0xC9 # ''TH'', CHR 0xE9 # ''th'']) = [CHR 0xC9 # ''TH'']
   \<and> toLowerCase [CHR 0xD7, CHR 0xDF, CHR 0xDE] = [CHR 0xD7, CHR 0xDF, CHR 0xFE]"
  by (simp add: normalizeCoinList_def trim_def isWhiteSpace_def toLowerCase_def lowerChar_def)

lemma normalize_example:
  "normalizeCoinList (Array [''btc'', ''BTC'', '' eth '']) = [''btc'', ''eth'']"
  by (simp add: normalizeCoinList_def trim_def isWhiteSpace_def toLowerCase_def lowerChar_def)

text \<open>
  Claim C5. Coin-list normalization is idempotent: normalizing the result of a
  normalization returns it unchanged, element by element. On every array it trims the
  entries, drops the empty ones and keeps, in first-seen order, the first entry of every
  case-insensitive key with the casing it was first seen in; and
  \<open>["btc", "BTC", " eth "]\<close> normalizes to \<open>["btc", "eth"]\<close>.
\<close>

theorem normalizeCoinList_idempotent:
  "normalizeCoinList (Array (normalizeCoinList v)) = normalizeCoinList v
   \<and> normalizeCoinList (Array xs) = normalize_spec xs
   \<and> normalizeCoinList (Array [''btc'', ''BTC'', '' eth '']) = [''btc'', ''eth'']"
proof (intro conjI)
  show "normalizeCoinList (Array (normalizeCoinList v)) = normalizeCoinList v"
    by (rule normalize_idem)
  show "normalizeCoinList (Array xs) = normalize_spec xs"
    by (simp add: normalizeCoinList_def normalize_spec_def normalize_loop_firstSeenBy)
  show "normalizeCoinList (Array [''btc'', ''BTC'', '' eth '']) = [''btc'', ''eth'']"
    by (rule normalize_example)
qed


subsection \<open>Reconciliation\<close>

lemma fold_upd_lookup:
  "fold (\<lambda>(k, v) m. m(k \<mapsto> v)) es m k =
     (case map_of (rev es) k of Some v \<Rightarrow> Some v | None \<Rightarrow> m k)"
  by (induction es arbitrary: m) (auto simp: map_add_def split: option.splits)

lemma byKey_lookup:
  assumes "distinct (map f xs)"
  shows "js_new_Map (map (\<lambda>c. (f c, c)) xs) k = Some a \<longleftrightarrow> a \<in> set xs \<and> f a = k"
proof -
  let ?es = "map (\<lambda>c. (f c, c)) xs"
  have d: "distinct (map fst (rev ?es))"
    using assms by (simp add: rev_map[symmetric] o_def)
  have "js_new_Map ?es k = map_of (rev ?es) k"
    by (simp add: js_new_Map_def fold_upd_lookup split: option.splits)
  also have "\<dots> = Some a \<longleftrightarrow> (k, a) \<in> set (rev ?es)"
    using d by (rule map_of_eq_Some_iff)
  finally show ?thesis by auto
qed

lemma filter_key_single:
  "distinct (map f xs) \<Longrightarrow> a \<in> set xs \<Longrightarrow> filter (\<lambda>x. f x = f a) xs = [a]"
proof (induction xs)
  case Nil
  then show ?case by simp
next
  case (Cons x xs)
  show ?case
  proof (cases "x = a")
    case True
    have "f a \<notin> f ` set xs" using Cons.prems(1) True by simp
    then have "\<And>y. y \<in> set xs \<Longrightarrow> f y \<noteq> f a" by (metis imageI)
    then have "filter (\<lambda>y. f y = f a) xs = []"
      by (simp add: filter_empty_conv)
    with True show ?thesis by simp
  next
    case False
    with Cons have "f x \<noteq> f a" by auto
    with Cons False show ?thesis by simp
  qed
qed

lemma kept_eq_concat:
  assumes d: "distinct (map f xs)" and ne: "[] \<notin> set xs"
  shows "map the (filter truthy (map (\<lambda>c. js_new_Map (map (\<lambda>c. (f c, c)) xs) (f c)) ps)) =
         concat (map (\<lambda>c. filter (\<lambda>a. f a = f c) xs) ps)"
proof (induction ps)
  case Nil
  show ?case by simp
next
  case (Cons p ps)
  let ?m = "js_new_Map (map (\<lambda>c. (f c, c)) xs)"
  show ?case
  proof (cases "?m (f p)")
    case None
    have "\<And>a. a \<in> set xs \<Longrightarrow> f a \<noteq> f p"
      using byKey_lookup[OF d, of "f p"] None by auto
    then have "filter (\<lambda>a. f a = f p) xs = []"
      by (auto simp: filter_empty_conv)
    with None Cons show ?thesis by (simp add: truthy_def)
  next
    case (Some a)
    then have a: "a \<in> set xs" "f a = f p"
      using byKey_lookup[OF d, of "f p" a] by auto
    have "filter (\<lambda>x. f x = f p) xs = [a]"
      using filter_key_single[OF d a(1)] a(2) by simp
    moreover have "a \<noteq> []" using a(1) ne by auto
    ultimately show ?thesis using Some Cons by (simp add: truthy_def)
  qed
qed

lemma concat_map_if_filter:
  "concat (map (\<lambda>a. if P a then [a] else []) xs) = filter P xs"
  by (induction xs) auto

lemma normalize_no_empty: "[] \<notin> set (normalizeCoinList v)"
  using normalize_elems[of "[]" v] by auto

lemma detect_on_normalized:
  "normalizeCoinList v \<noteq> [] \<Longrightarrow>
   detectWatchlistFromLatest (Array (normalizeCoinList v)) usd thb =
     (let available = normalizeCoinList v;
          both = filter (\<lambda>c. toLowerCase c \<in> toLowerCase ` set (normalizeCoinList usd)
                            \<and> toLowerCase c \<in> toLowerCase ` set (normalizeCoinList thb)) available
      in if both \<noteq> [] then both else take 12 available)"
  by (simp add: detectWatchlistFromLatest_def normalize_idem Let_def min_def)

lemma reconcile_eq_steps:
  "reconcileWatchlist prev avail usd thb = reconcile_steps prev avail usd thb"
proof (cases "normalizeCoinList avail = []")
  case True
  then show ?thesis by (simp add: reconcileWatchlist_def reconcile_steps_def)
next
  case False
  let ?av = "normalizeCoinList avail"
  have k: "map the (filter truthy (map (\<lambda>c. js_new_Map (map (\<lambda>c. (toLowerCase c, c)) ?av)
              (toLowerCase c)) (normalizeCoinList prev))) =
           concat (map (\<lambda>c. filter (\<lambda>a. toLowerCase a = toLowerCase c) ?av) (normalizeCoinList prev))"
    by (rule kept_eq_concat[OF normalize_distinct normalize_no_empty])
  have "reconcileWatchlist prev avail usd thb =
          (let kept = concat (map (\<lambda>c. filter (\<lambda>a. toLowerCase a = toLowerCase c) ?av)
                                (normalizeCoinList prev))
           in if kept \<noteq> [] then kept
              else detectWatchlistFromLatest (Array ?av) usd thb)"
    using False unfolding reconcileWatchlist_def Let_def k by simp
  also have "\<dots> = reconcile_steps prev avail usd thb"
    using False unfolding reconcile_steps_def detect_on_normalized[OF False] Let_def
    by (simp add: concat_map_if_filter)
  finally show ?thesis .
qed

lemma kept_distinct:
  "distinct (map f ps) \<Longrightarrow>
   distinct (map f (concat (map (\<lambda>c. filter (\<lambda>a. f a = f c) xs) ps)))" if "distinct (map f xs)"
proof (induction ps)
  case Nil
  show ?case by simp
next
  case (Cons p ps)
  have "f ` set (concat (map (\<lambda>c. filter (\<lambda>a. f a = f c) xs) ps)) \<subseteq> f ` set ps"
    by auto
  moreover have "f p \<notin> f ` set ps" using Cons.prems by auto
  ultimately show ?case
    using Cons that by (auto simp: distinct_map_filter)
qed

lemma if_chain:
  "P [] \<Longrightarrow> P k \<Longrightarrow> P b \<Longrightarrow> P t \<Longrightarrow>
   P (if c1 then [] else if c2 then k else if c3 then b else t)"
  by simp

lemma reconcile_steps_subset:
  "set (reconcile_steps prev avail usd thb) \<subseteq> set (normalizeCoinList avail)"
  unfolding reconcile_steps_def Let_def
  by (rule if_chain[where P="\<lambda>r. set r \<subseteq> set (normalizeCoinList avail)"])
     (auto dest: in_set_takeD split: if_splits)

lemma reconcile_steps_distinct:
  "distinct (map toLowerCase (reconcile_steps prev avail usd thb))"
proof -
  let ?av = "normalizeCoinList avail"
  let ?kept = "[a. c \<leftarrow> normalizeCoinList prev, a \<leftarrow> ?av, toLowerCase a = toLowerCase c]"
  have kk: "?kept = concat (map (\<lambda>c. filter (\<lambda>a. toLowerCase a = toLowerCase c) ?av)
                              (normalizeCoinList prev))"
    by (simp add: concat_map_if_filter)
  have 1: "distinct (map toLowerCase ?kept)"
    unfolding kk by (rule kept_distinct[OF normalize_distinct normalize_distinct])
  have 2: "distinct (map toLowerCase (filter Q ?av))" for Q
    by (simp add: distinct_map_filter normalize_distinct)
  have 3: "distinct (map toLowerCase (take 12 ?av))"
    using normalize_distinct[of avail] by (simp add: take_map[symmetric])
  show ?thesis
    unfolding reconcile_steps_def Let_def
    by (rule if_chain[where P="\<lambda>r. distinct (map toLowerCase r)"]) (simp, rule 1, rule 2, rule 3)
qed

lemma reconcile_steps_empty_iff:
  "reconcile_steps prev avail usd thb = [] \<longleftrightarrow> normalizeCoinList avail = []"
  by (auto simp: reconcile_steps_def Let_def)


lemma reconcile_latin1_example:
  "reconcileWatchlist (Array [CHR 0xE9 # ''th'']) (Array [CHR 0xC9 # ''TH'', ''BTC''])
     (Array []) (Array []) = [CHR 0xC9 # ''TH'']"
  by (simp add: reconcileWatchlist_def normalizeCoinList_def js_new_Map_def truthy_def
      trim_def isWhiteSpace_def toLowerCase_def lowerChar_def)

text \<open>
  Claim C3, as the specification words it, fails on the code: step 3 does not return
  entries of the previous watchlist. For the previous watchlist \<open>["btc"]\<close> and the
  available coins \<open>["BTC"]\<close> the code returns \<open>["BTC"]\<close>, the available list's casing,
  where the filtered previous watchlist is \<open>["btc"]\<close>.
\<close>

theorem reconcile_spec_counterexample:
  "reconcileWatchlist (Array [''btc'']) (Array [''BTC'']) (Array []) (Array []) = [''BTC'']
   \<and> reconcile_spec [''btc''] [''BTC''] [] [] = [''btc'']
   \<and> reconcileWatchlist (Array [''btc'']) (Array [''BTC'']) (Array []) (Array [])
       \<noteq> reconcile_spec [''btc''] [''BTC''] [] []"
  by (simp add: reconcileWatchlist_def reconcile_spec_def normalize_spec_def firstSeenBy_def
      normalizeCoinList_def js_new_Map_def truthy_def trim_def isWhiteSpace_def
      toLowerCase_def lowerChar_def)

text \<open>
  Claim C3, amended. Reconciliation normalizes the available coins; when none is left the
  result is empty; otherwise it normalizes the previous watchlist and keeps, in
  previous-watchlist order, every entry whose case-insensitive key is among the available
  coins, each as the available coin with that key; when nothing is kept it returns the
  available coins whose key is in both normalized universes, in available order, when
  there is one, and otherwise the first 12 available coins. For an empty previous
  watchlist, available coins \<open>["BTC","ETH","XRP"]\<close> and universes \<open>["BTC","ETH"]\<close> and
  \<open>["ETH","XRP"]\<close> the result is \<open>["ETH"]\<close>. The result is a function of the four
  arguments alone: the code reads nothing else.
\<close>

theorem reconcileWatchlist_steps:
  "reconcileWatchlist prev avail usd thb = reconcile_steps prev avail usd thb
   \<and> reconcileWatchlist (Array []) (Array [''BTC'', ''ETH'', ''XRP''])
         (Array [''BTC'', ''ETH'']) (Array [''ETH'', ''XRP'']) = [''ETH'']"
proof
  show "reconcileWatchlist prev avail usd thb = reconcile_steps prev avail usd thb"
    by (rule reconcile_eq_steps)
  show "reconcileWatchlist (Array []) (Array [''BTC'', ''ETH'', ''XRP''])
          (Array [''BTC'', ''ETH'']) (Array [''ETH'', ''XRP'']) = [''ETH'']"
    by (simp add: reconcileWatchlist_def detectWatchlistFromLatest_def
        normalizeCoinList_def js_new_Map_def truthy_def trim_def isWhiteSpace_def
        toLowerCase_def lowerChar_def)
qed

text \<open>
  Claim C10. Every element of the reconciled watchlist is an element of the normalized
  available list (so it has that list's casing), no two elements of the result have the
  same case-insensitive key, and the result is empty exactly when the normalized
  available list is empty.
\<close>

theorem reconcileWatchlist_invariant:
  "set (reconcileWatchlist prev avail usd thb) \<subseteq> set (normalizeCoinList avail)
   \<and> distinct (map toLowerCase (reconcileWatchlist prev avail usd thb))
   \<and> (reconcileWatchlist prev avail usd thb = [] \<longleftrightarrow> normalizeCoinList avail = [])"
  unfolding reconcile_eq_steps
  using reconcile_steps_subset reconcile_steps_distinct reconcile_steps_empty_iff
  by blast


section \<open>Properties of the coin selection\<close>

text \<open>
  Claim C4 says that a request lists the selected coins in the order of the available
  list. The code that builds \<open>orderedSelectedCoins\<close> walks the selection set, not the
  available list: with available coins \<open>["ETH","BTC","XRP"]\<close> and a selection made by
  toggling XRP and then ETH, the coins of the request are \<open>["XRP","ETH"]\<close> and its
  \<open>coins\<close> field is \<open>XRP,ETH\<close>.
\<close>

theorem orderedSelectedCoins_insertion_order:
  "toggleCoin ''ETH'' (toggleCoin ''XRP'' []) = [''XRP'', ''ETH'']
   \<and> orderedSelectedCoins [''ETH'', ''BTC'', ''XRP''] (toggleCoin ''ETH'' (toggleCoin ''XRP'' []))
       = [''XRP'', ''ETH'']
   \<and> join_comma (orderedSelectedCoins [''ETH'', ''BTC'', ''XRP'']
         (toggleCoin ''ETH'' (toggleCoin ''XRP'' []))) = ''XRP,ETH''"
  by (simp add: toggleCoin_def orderedSelectedCoins_def js_new_Map_def truthy_def
      toLowerCase_def lowerChar_def)

section \<open>Properties of the download file name\<close>

lemma match_here_iff: "match_here s = Some name \<longleftrightarrow> filename_at s 0 name"
proof
  assume m: "match_here s = Some name"
  let ?n = "length filename_lit"
  let ?rest = "drop ?n s"
  let ?after = "dropWhile (\<lambda>c. c \<noteq> dquote) ?rest"
  from m have t: "take ?n s = filename_lit"
    and nm: "name = takeWhile (\<lambda>c. c \<noteq> dquote) ?rest"
    and ne: "name \<noteq> []" and an: "?after \<noteq> []"
    by (auto simp: match_here_def Let_def split: if_splits)
  have "hd ?after = dquote" using an hd_dropWhile[of "\<lambda>c. c \<noteq> dquote" ?rest] by auto
  then obtain post where a: "?after = dquote # post" using an by (cases ?after) auto
  have "s = take ?n s @ ?rest" by simp
  also have "\<dots> = filename_lit @ name @ ?after" using t nm by simp
  finally have s: "s = filename_lit @ name @ dquote # post" using a by simp
  have nq: "dquote \<notin> set name"
    unfolding nm using set_takeWhileD by fastforce
  have "take (?n + length name + 1) s = filename_lit @ name @ [dquote]"
    by (subst s) simp
  with ne nq show "filename_at s 0 name" by (simp add: filename_at_def)
next
  assume "filename_at s 0 name"
  then have ne: "name \<noteq> []" and nq: "dquote \<notin> set name"
    and t: "take (length filename_lit + length name + 1) s = filename_lit @ name @ [dquote]"
    by (auto simp: filename_at_def)
  define post where "post = drop (length filename_lit + length name + 1) s"
  have "s = take (length filename_lit + length name + 1) s @ post"
    unfolding post_def by simp
  then have s: "s = filename_lit @ name @ dquote # post" using t by simp
  have tw: "takeWhile (\<lambda>c. c \<noteq> dquote) (name @ dquote # post) = name"
    using nq by (subst takeWhile_append2) auto
  have dw: "dropWhile (\<lambda>c. c \<noteq> dquote) (name @ dquote # post) = dquote # post"
    using nq by (subst dropWhile_append2) auto
  show "match_here s = Some name"
    by (subst s) (simp add: match_here_def tw dw ne)
qed

lemma filename_at_Suc: "filename_at (c # cs) (Suc i) name \<longleftrightarrow> filename_at cs i name"
  by (simp add: filename_at_def)

lemma regex_exec_None: "regex_exec h = None \<longleftrightarrow> (\<forall>i n. \<not> filename_at h i n)"
proof (induction h)
  case Nil
  have "\<not> filename_at [] i n" for i n
    by (auto simp: filename_at_def filename_lit_def)
  then show ?case using match_here_iff[of "[]"] by (cases "match_here []") auto
next
  case (Cons c cs)
  show ?case
  proof (cases "match_here (c # cs)")
    case (Some n)
    then show ?thesis using match_here_iff[of "c # cs" n] by auto
  next
    case None
    then have z: "\<not> filename_at (c # cs) 0 n" for n
      using match_here_iff[of "c # cs" n] by simp
    have "(\<forall>i n. \<not> filename_at (c # cs) i n) \<longleftrightarrow> (\<forall>i n. \<not> filename_at cs i n)"
    proof
      assume "\<forall>i n. \<not> filename_at (c # cs) i n"
      then show "\<forall>i n. \<not> filename_at cs i n" using filename_at_Suc by blast
    next
      assume a: "\<forall>i n. \<not> filename_at cs i n"
      show "\<forall>i n. \<not> filename_at (c # cs) i n"
      proof (intro allI)
        fix i n
        show "\<not> filename_at (c # cs) i n"
          using z a filename_at_Suc by (cases i) auto
      qed
    qed
    with None Cons show ?thesis by simp
  qed
qed

lemma regex_exec_leftmost:
  "filename_at h i name \<Longrightarrow> (\<forall>j<i. \<forall>n. \<not> filename_at h j n) \<Longrightarrow> regex_exec h = Some name"
proof (induction h arbitrary: i)
  case Nil
  then show ?case by (auto simp: filename_at_def filename_lit_def)
next
  case (Cons c cs)
  show ?case
  proof (cases i)
    case 0
    with Cons.prems(1) have "match_here (c # cs) = Some name"
      by (simp add: match_here_iff)
    then show ?thesis by simp
  next
    case (Suc k)
    with Cons.prems(2) have "\<not> filename_at (c # cs) 0 n" for n by auto
    then have none: "match_here (c # cs) = None"
      using match_here_iff[of "c # cs"] by (cases "match_here (c # cs)") auto
    have 1: "filename_at cs k name" using Cons.prems(1) Suc by (simp add: filename_at_Suc)
    have 2: "\<forall>j<k. \<forall>n. \<not> filename_at cs j n"
    proof (intro allI impI)
      fix j n
      assume "j < k"
      then have "Suc j < i" using Suc by simp
      then have "\<not> filename_at (c # cs) (Suc j) n" using Cons.prems(2) by blast
      then show "\<not> filename_at cs j n" by (simp add: filename_at_Suc)
    qed
    show ?thesis using Cons.IH[OF 1 2] none by simp
  qed
qed

lemma filename_at_nonempty: "filename_at h i name \<Longrightarrow> name \<noteq> [] \<and> h \<noteq> []"
  by (auto simp: filename_at_def filename_lit_def)

text \<open>
  Claim C8. When the response has no \<open>content-disposition\<close> header, or the header holds
  no \<open>filename="..."\<close> with a non-empty quoted name, the download is saved under the
  fixed default name (\<open>CLEAN.csv\<close> in the ETL flow, \<open>REPORT_CLEAN.xlsx\<close> in the report
  flow); otherwise it is saved under the text within the leftmost \<open>filename="..."\<close> of the
  header. Both functions are total: no input makes them throw.
\<close>

theorem download_filename_fallback:
  "etl_download_filename None = ''CLEAN.csv''
   \<and> report_download_filename None = ''REPORT_CLEAN.xlsx''
   \<and> ((\<forall>i n. \<not> filename_at h i n) \<longrightarrow>
        etl_download_filename (Some h) = ''CLEAN.csv''
        \<and> report_download_filename (Some h) = ''REPORT_CLEAN.xlsx'')
   \<and> (filename_at h i name \<and> (\<forall>j<i. \<forall>n. \<not> filename_at h j n) \<longrightarrow>
        etl_download_filename (Some h) = name \<and> report_download_filename (Some h) = name)"
proof (intro conjI impI)
  show "etl_download_filename None = ''CLEAN.csv''"
    by (simp add: etl_download_filename_def parseFilenameFromDisposition_def)
  show "report_download_filename None = ''REPORT_CLEAN.xlsx''"
    by (simp add: report_download_filename_def match_here_def filename_lit_def)
next
  assume "\<forall>i n. \<not> filename_at h i n"
  then have n: "regex_exec h = None" by (simp add: regex_exec_None)
  show "etl_download_filename (Some h) = ''CLEAN.csv''"
    using n by (simp add: etl_download_filename_def parseFilenameFromDisposition_def)
  show "report_download_filename (Some h) = ''REPORT_CLEAN.xlsx''"
    using n by (simp add: report_download_filename_def)
next
  assume a: "filename_at h i name \<and> (\<forall>j<i. \<forall>n. \<not> filename_at h j n)"
  then have r: "regex_exec h = Some name" using regex_exec_leftmost by blast
  have ne: "name \<noteq> []" "h \<noteq> []" using a filename_at_nonempty by blast+
  show "etl_download_filename (Some h) = name"
    using r ne by (simp add: etl_download_filename_def parseFilenameFromDisposition_def)
  show "report_download_filename (Some h) = name"
    using r by (simp add: report_download_filename_def)
qed

theorem download_filename_fallback_witness:
  "regex_exec ''attachment'' = None
   \<and> etl_download_filename (Some ''attachment'') = ''CLEAN.csv''
   \<and> report_download_filename (Some ''attachment'') = ''REPORT_CLEAN.xlsx''
   \<and> filename_at (filename_lit @ ''out.csv'' @ [dquote]) 0 ''out.csv''
   \<and> etl_download_filename (Some (filename_lit @ ''out.csv'' @ [dquote])) = ''out.csv''
   \<and> report_download_filename (Some (filename_lit @ ''out.csv'' @ [dquote])) = ''out.csv''"
proof -
  have n: "regex_exec ''attachment'' = None"
    by (simp add: match_here_def filename_lit_def dquote_def)
  have h1: "\<forall>i n. \<not> filename_at ''attachment'' i n"
    by (rule iffD1[OF regex_exec_None n])
  have h2: "filename_at (filename_lit @ ''out.csv'' @ [dquote]) 0 ''out.csv''"
    by (simp add: filename_at_def filename_lit_def dquote_def)
  have a: "etl_download_filename (Some ''attachment'') = ''CLEAN.csv''
           \<and> report_download_filename (Some ''attachment'') = ''REPORT_CLEAN.xlsx''"
    using download_filename_fallback[of "''attachment''" 0 "''out.csv''"] h1 by blast
  have b: "etl_download_filename (Some (filename_lit @ ''out.csv'' @ [dquote])) = ''out.csv''
           \<and> report_download_filename (Some (filename_lit @ ''out.csv'' @ [dquote])) = ''out.csv''"
    using download_filename_fallback[of "filename_lit @ ''out.csv'' @ [dquote]" 0 "''out.csv''"] h2
    by simp
  show ?thesis using n a b h2 by blast
qed


section \<open>Properties of the theme preference\<close>

lemma scanDataTheme_None:
  "scanDataTheme els = None \<longleftrightarrow> (\<forall>el\<in>set els. \<not> validTheme (dataTheme el))"
  by (induction els) (auto simp: Let_def validTheme_def)

lemma scanDataTheme_first:
  "i < length els \<Longrightarrow> validTheme (dataTheme (els ! i)) \<Longrightarrow>
   (\<forall>j<i. \<not> validTheme (dataTheme (els ! j))) \<Longrightarrow> scanDataTheme els = dataTheme (els ! i)"
proof (induction els arbitrary: i)
  case Nil
  then show ?case by simp
next
  case (Cons el els)
  show ?case
  proof (cases i)
    case 0
    with Cons.prems show ?thesis by simp
  next
    case (Suc k)
    with Cons.prems have "\<not> validTheme (dataTheme el)" by auto
    moreover have "scanDataTheme els = dataTheme (els ! k)"
      using Cons.prems Suc by (intro Cons.IH) auto
    ultimately show ?thesis using Suc by simp
  qed
qed

lemma scanStorageKeys_None:
  "scanStorageKeys st ks = None \<longleftrightarrow> (\<forall>k\<in>set ks. \<not> validTheme (st k))"
  by (induction ks) (auto simp: Let_def validTheme_def)

lemma scanStorageKeys_first:
  "i < length ks \<Longrightarrow> validTheme (st (ks ! i)) \<Longrightarrow>
   (\<forall>j<i. \<not> validTheme (st (ks ! j))) \<Longrightarrow> scanStorageKeys st ks = st (ks ! i)"
proof (induction ks arbitrary: i)
  case Nil
  then show ?case by simp
next
  case (Cons k ks)
  show ?case
  proof (cases i)
    case 0
    with Cons.prems show ?thesis by simp
  next
    case (Suc m)
    with Cons.prems have "\<not> validTheme (st k)" by auto
    moreover have "scanStorageKeys st ks = st (ks ! m)"
      using Cons.prems Suc by (intro Cons.IH) auto
    ultimately show ?thesis using Suc by simp
  qed
qed

text \<open>
  Claim C9. The observed roots are the document element, the body, \<open>#root\<close> and
  \<open>#root\<close>'s first child, in this order. \<open>readTheme\<close> returns (1) the \<open>data-theme\<close>
  attribute of the first observed root whose attribute is \<open>dark\<close> or \<open>light\<close>; when no
  root has one, (2) the value of the first of the storage keys \<open>theme\<close>, \<open>vite-ui-theme\<close>,
  \<open>eglc_theme\<close> whose value is \<open>dark\<close> or \<open>light\<close>; when storage cannot be read or no key
  has one, (3) \<open>dark\<close> if an observed root carries the class \<open>dark\<close>, (4) \<open>dark\<close> if the
  environment prefers a dark scheme, and \<open>light\<close> otherwise.
\<close>

theorem readTheme_resolution_order:
  "themeTargets \<lparr>localStorage = ls, documentElement = html, body = Some b,
       rootElement = Some r, rootFirstChild = Some ch, matchMedia = mm\<rparr> = [html, b, r, ch]
   \<and> THEME_KEYS = [''theme'', ''vite-ui-theme'', ''eglc_theme'']
   \<and> (i < length (themeTargets env) \<and> validTheme (dataTheme (themeTargets env ! i))
        \<and> (\<forall>j<i. \<not> validTheme (dataTheme (themeTargets env ! j)))
      \<longrightarrow> Some (readTheme env) = dataTheme (themeTargets env ! i))
   \<and> ((\<forall>el\<in>set (themeTargets env). \<not> validTheme (dataTheme el))
        \<and> localStorage env = Some st
        \<and> k < length THEME_KEYS \<and> validTheme (st (THEME_KEYS ! k))
        \<and> (\<forall>j<k. \<not> validTheme (st (THEME_KEYS ! j)))
      \<longrightarrow> Some (readTheme env) = st (THEME_KEYS ! k))
   \<and> ((\<forall>el\<in>set (themeTargets env). \<not> validTheme (dataTheme el))
        \<and> (localStorage env = None
            \<or> (\<exists>st'. localStorage env = Some st' \<and> (\<forall>key\<in>set THEME_KEYS. \<not> validTheme (st' key))))
      \<longrightarrow> readTheme env =
            (if \<exists>el\<in>set (themeTargets env). ''dark'' \<in> set (classList el) then ''dark''
             else if matchMedia env = Some True then ''dark''
             else ''light''))"
proof (intro conjI impI)
  show "themeTargets \<lparr>localStorage = ls, documentElement = html, body = Some b,
       rootElement = Some r, rootFirstChild = Some ch, matchMedia = mm\<rparr> = [html, b, r, ch]"
    by (simp add: themeTargets_def)
  show "THEME_KEYS = [''theme'', ''vite-ui-theme'', ''eglc_theme'']"
    by (simp add: THEME_KEYS_def)
next
  assume a: "i < length (themeTargets env) \<and> validTheme (dataTheme (themeTargets env ! i))
        \<and> (\<forall>j<i. \<not> validTheme (dataTheme (themeTargets env ! j)))"
  then have "scanDataTheme (themeTargets env) = dataTheme (themeTargets env ! i)"
    using scanDataTheme_first by blast
  moreover obtain v where "dataTheme (themeTargets env ! i) = Some v"
    using a by (auto simp: validTheme_def)
  ultimately show "Some (readTheme env) = dataTheme (themeTargets env ! i)"
    by (simp add: readTheme_def readTheme_try_def)
next
  assume a: "(\<forall>el\<in>set (themeTargets env). \<not> validTheme (dataTheme el))
        \<and> localStorage env = Some st
        \<and> k < length THEME_KEYS \<and> validTheme (st (THEME_KEYS ! k))
        \<and> (\<forall>j<k. \<not> validTheme (st (THEME_KEYS ! j)))"
  then have 1: "scanDataTheme (themeTargets env) = None"
    by (simp add: scanDataTheme_None)
  have 2: "scanStorageKeys st THEME_KEYS = st (THEME_KEYS ! k)"
    using a scanStorageKeys_first by blast
  obtain v where "st (THEME_KEYS ! k) = Some v"
    using a by (auto simp: validTheme_def)
  then show "Some (readTheme env) = st (THEME_KEYS ! k)"
    using a 1 2 by (simp add: readTheme_def readTheme_try_def)
next
  assume a: "(\<forall>el\<in>set (themeTargets env). \<not> validTheme (dataTheme el))
        \<and> (localStorage env = None
            \<or> (\<exists>st'. localStorage env = Some st' \<and> (\<forall>key\<in>set THEME_KEYS. \<not> validTheme (st' key))))"
  then have 1: "scanDataTheme (themeTargets env) = None"
    by (simp add: scanDataTheme_None)
  have 2: "readTheme_try env = Caught \<or> readTheme_try env = Completed"
  proof (cases "localStorage env")
    case None
    then show ?thesis using 1 by (simp add: readTheme_try_def)
  next
    case (Some st')
    with a have "\<forall>key\<in>set THEME_KEYS. \<not> validTheme (st' key)" by auto
    then have "scanStorageKeys st' THEME_KEYS = None"
      by (rule iffD2[OF scanStorageKeys_None])
    then show ?thesis using 1 Some by (simp add: readTheme_try_def)
  qed
  have 3: "(case matchMedia env of None \<Rightarrow> False | Some matches \<Rightarrow> matches)
           \<longleftrightarrow> matchMedia env = Some True"
    by (cases "matchMedia env") auto
  show "readTheme env =
            (if \<exists>el\<in>set (themeTargets env). ''dark'' \<in> set (classList el) then ''dark''
             else if matchMedia env = Some True then ''dark''
             else ''light'')"
    using 2 3 by (auto simp: readTheme_def list_ex_iff Let_def)
qed

theorem readTheme_resolution_order_witness:
  "readTheme \<lparr>localStorage = Some [''theme'' \<mapsto> ''dark''],
       documentElement = \<lparr>dataTheme = None, classList = [''dark'']\<rparr>,
       body = Some \<lparr>dataTheme = Some ''light'', classList = []\<rparr>, rootElement = None,
       rootFirstChild = None, matchMedia = Some True\<rparr> = ''light''
   \<and> readTheme \<lparr>localStorage = Some [''theme'' \<mapsto> ''system'', ''vite-ui-theme'' \<mapsto> ''dark''],
       documentElement = \<lparr>dataTheme = None, classList = []\<rparr>,
       body = Some \<lparr>dataTheme = Some ''blue'', classList = []\<rparr>, rootElement = None,
       rootFirstChild = None, matchMedia = Some False\<rparr> = ''dark''
   \<and> readTheme \<lparr>localStorage = None,
       documentElement = \<lparr>dataTheme = None, classList = []\<rparr>,
       body = None, rootElement = Some \<lparr>dataTheme = None, classList = [''app'', ''dark'']\<rparr>,
       rootFirstChild = None, matchMedia = Some False\<rparr> = ''dark''
   \<and> readTheme \<lparr>localStorage = None,
       documentElement = \<lparr>dataTheme = None, classList = []\<rparr>,
       body = None, rootElement = None,
       rootFirstChild = None, matchMedia = None\<rparr> = ''light''"
proof -
  let ?e1 = "\<lparr>localStorage = Some [''theme'' \<mapsto> ''dark''],
       documentElement = \<lparr>dataTheme = None, classList = [''dark'']\<rparr>,
       body = Some \<lparr>dataTheme = Some ''light'', classList = []\<rparr>, rootElement = None,
       rootFirstChild = None, matchMedia = Some True\<rparr>"
  let ?st2 = "[''theme'' \<mapsto> ''system'', ''vite-ui-theme'' \<mapsto> ''dark'']"
  let ?e2 = "\<lparr>localStorage = Some [''theme'' \<mapsto> ''system'', ''vite-ui-theme'' \<mapsto> ''dark''],
       documentElement = \<lparr>dataTheme = None, classList = []\<rparr>,
       body = Some \<lparr>dataTheme = Some ''blue'', classList = []\<rparr>, rootElement = None,
       rootFirstChild = None, matchMedia = Some False\<rparr>"
  let ?e3 = "\<lparr>localStorage = None,
       documentElement = \<lparr>dataTheme = None, classList = []\<rparr>,
       body = None, rootElement = Some \<lparr>dataTheme = None, classList = [''app'', ''dark'']\<rparr>,
       rootFirstChild = None, matchMedia = Some False\<rparr>"
  let ?e4 = "\<lparr>localStorage = None,
       documentElement = \<lparr>dataTheme = None, classList = []\<rparr>,
       body = None, rootElement = None,
       rootFirstChild = None, matchMedia = None\<rparr>"
  have 1: "Some (readTheme ?e1) = Some ''light''"
    using readTheme_resolution_order[of _ _ _ _ _ _ 1 ?e1]
    by (simp add: themeTargets_def validTheme_def)
  have 2: "Some (readTheme ?e2) = Some ''dark''"
    using readTheme_resolution_order[of _ _ _ _ _ _ _ ?e2 ?st2 1]
    by (simp add: themeTargets_def validTheme_def THEME_KEYS_def)
  have 3: "readTheme ?e3 = ''dark''"
    using readTheme_resolution_order[of _ _ _ _ _ _ _ ?e3]
    by (simp add: themeTargets_def validTheme_def)
  have 4: "readTheme ?e4 = ''light''"
    using readTheme_resolution_order[of _ _ _ _ _ _ _ ?e4]
    by (simp add: themeTargets_def validTheme_def)
  show ?thesis using 1 2 3 4 by simp
qed


section \<open>Properties of the session check\<close>

lemma requestMe_rejects:
  "(\<exists>e. requestMe r = Inl e) \<longleftrightarrow>
     (\<exists>e. r = Rejected e) \<or> (\<exists>status b. r = Reply status b \<and> \<not> res_ok status)"
  by (cases r) (auto simp: requestMe_def Let_def)

lemma readStoredToken_cleared:
  "readStoredToken (writeStoredToken [] s) = [] \<and> token (writeStoredToken [] s) = []"
  by (cases "localStorage s") (simp_all add: writeStoredToken_def onAuthSync_def readStoredToken_def)

text \<open>
  Claim C6, as stated, fails on the code in two ways. A check that has been superseded
  (its effect was cleaned up because the token changed or the component unmounted) is
  ignored when it fails, and a reply with a 2xx status whose body is not JSON is not a
  failure of \<open>requestMe\<close> at all: in both cases the stored token \<open>t1\<close> is still read
  back afterwards.
\<close>

theorem session_check_counterexample:
  "readStoredToken (session_settle False (Reply 401 (Parsed \<lparr>detail = None, user_field = None\<rparr>))
       \<lparr>localStorage = Some [TOKEN_KEY \<mapsto> ''t1''], token = ''t1'', user = None,
        checkingSession = True\<rparr>) = ''t1''
   \<and> readStoredToken (session_settle True (Reply 200 (Malformed ''Unexpected token''))
       \<lparr>localStorage = Some [TOKEN_KEY \<mapsto> ''t1''], token = ''t1'', user = None,
        checkingSession = True\<rparr>) = ''t1''"
  by (simp add: session_settle_def requestMe_def res_ok_def readStoredToken_def)

text \<open>
  Claim C6, amended. When the who-am-I request rejects, which it does on a network error
  and on every status outside 2xx, and the check is still the current one when it
  settles, the user is set to \<open>null\<close> and the stored token is cleared: the token state
  is empty and a following read of the token store returns the empty string (also when
  storage cannot be accessed). When the request succeeds with a 2xx status and a user
  object and the check is still current, the user state is set from the reply and the
  token is kept. A check that is no longer current changes nothing.
\<close>

theorem session_check_failure_clears_token:
  "(requestMe r = Inl e \<longrightarrow>
      readStoredToken (session_settle True r s) = []
      \<and> token (session_settle True r s) = []
      \<and> user (session_settle True r s) = None
      \<and> checkingSession (session_settle True r s) = False)
   \<and> (\<exists>e'. requestMe (Rejected e) = Inl e')
   \<and> (\<not> res_ok status \<longrightarrow> (\<exists>e'. requestMe (Reply status b) = Inl e'))
   \<and> (res_ok status \<longrightarrow>
        session_settle True (Reply status (Parsed \<lparr>detail = d, user_field = Some u\<rparr>)) s
          = s\<lparr>user := Some u, checkingSession := False\<rparr>)
   \<and> session_settle False r s = s"
proof (intro conjI impI)
  assume a: "requestMe r = Inl e"
  let ?s1 = "s\<lparr>user := None, token := []\<rparr>"
  have eq: "session_settle True r s = (writeStoredToken [] ?s1)\<lparr>checkingSession := False\<rparr>"
    using a by (simp add: session_settle_def)
  have w: "readStoredToken (writeStoredToken [] ?s1) = []" "token (writeStoredToken [] ?s1) = []"
    using readStoredToken_cleared[of ?s1] by simp_all
  have u: "user (writeStoredToken [] ?s1) = None"
    by (cases "localStorage s") (simp_all add: writeStoredToken_def onAuthSync_def)
  show "readStoredToken (session_settle True r s) = []"
    using w(1) unfolding eq by (simp add: readStoredToken_def)
  show "token (session_settle True r s) = []"
    using w(2) unfolding eq by simp
  show "user (session_settle True r s) = None"
    using u unfolding eq by simp
  show "checkingSession (session_settle True r s) = False"
    unfolding eq by simp
next
  show "\<exists>e'. requestMe (Rejected e) = Inl e'"
    by (simp add: requestMe_def)
next
  assume "\<not> res_ok status"
  then show "\<exists>e'. requestMe (Reply status b) = Inl e'"
    by (simp add: requestMe_def Let_def)
next
  assume "res_ok status"
  then show "session_settle True (Reply status (Parsed \<lparr>detail = d, user_field = Some u\<rparr>)) s
          = s\<lparr>user := Some u, checkingSession := False\<rparr>"
    by (simp add: session_settle_def requestMe_def)
next
  show "session_settle False r s = s"
    by (cases "requestMe r") (simp_all add: session_settle_def)
qed

theorem session_check_failure_clears_token_witness:
  "requestMe (Reply 401 (Parsed \<lparr>detail = Some ''Invalid token'', user_field = None\<rparr>))
     = Inl (JsError ''Error'' ''Invalid token'')
   \<and> readStoredToken (session_settle True
        (Reply 401 (Parsed \<lparr>detail = Some ''Invalid token'', user_field = None\<rparr>))
        \<lparr>localStorage = Some [TOKEN_KEY \<mapsto> ''t1''], token = ''t1'', user = None,
         checkingSession = True\<rparr>) = []
   \<and> \<not> res_ok 500
   \<and> (\<exists>e'. requestMe (Reply 500 (Malformed ''Unexpected token'')) = Inl e')
   \<and> res_ok 200
   \<and> user (session_settle True (Reply 200 (Parsed \<lparr>detail = None, user_field = Some ''ann''\<rparr>))
        \<lparr>localStorage = Some [TOKEN_KEY \<mapsto> ''t1''], token = ''t1'', user = None,
         checkingSession = True\<rparr>) = Some ''ann''"
proof -
  let ?s = "\<lparr>localStorage = Some [TOKEN_KEY \<mapsto> ''t1''], token = ''t1'', user = None,
         checkingSession = True\<rparr>"
  let ?r = "Reply 401 (Parsed \<lparr>detail = Some ''Invalid token'', user_field = None\<rparr>)"
  have h1: "requestMe ?r = Inl (JsError ''Error'' ''Invalid token'')"
    by (simp add: requestMe_def res_ok_def detail_or_status_def)
  have h2: "\<not> res_ok 500" by (simp add: res_ok_def)
  have h3: "res_ok 200" by (simp add: res_ok_def)
  note t1 = session_check_failure_clears_token[where r="?r"
      and e="JsError ''Error'' ''Invalid token''" and s="?s"]
  note t2 = session_check_failure_clears_token[where status=500
      and b="Malformed ''Unexpected token''"]
  note t3 = session_check_failure_clears_token[where s="?s" and status=200 and d=None
      and u="''ann''"]
  have c1: "readStoredToken (session_settle True ?r ?s) = []" using t1 h1 by blast
  have c2: "\<exists>e'. requestMe (Reply 500 (Malformed ''Unexpected token'')) = Inl e'"
    using t2 h2 by blast
  have c3: "session_settle True (Reply 200 (Parsed \<lparr>detail = None, user_field = Some ''ann''\<rparr>)) ?s
          = ?s\<lparr>user := Some ''ann'', checkingSession := False\<rparr>"
    using t3 h3 by blast
  show ?thesis using h1 h2 h3 c1 c2 by (simp add: c3)
qed


section \<open>Properties of the preview request controllers\<close>

lemma report_settle_stale: "requestId \<noteq> previewReqRef s \<Longrightarrow> report_settle requestId r s = s"
  by (cases "report_try r") (auto simp: report_settle_def Let_def)

lemma etl_settle_stale: "requestId \<noteq> previewReqRef s \<Longrightarrow> etl_settle requestId r s = s"
  by (cases "etl_try r") (auto simp: etl_settle_def Let_def)

lemma callPreview_id:
  "arg_file a = Some f \<Longrightarrow> previewReqRef (callPreview a s) = previewReqRef s + 1"
  by (cases "abortRef s") (simp_all add: callPreview_def Let_def)

lemma callPreview_sent:
  "arg_file a = Some f \<Longrightarrow>
   sent (callPreview a s) = sent s @
     [\<lparr>form_file = f, form_asset = arg_asset a, form_include_bot = arg_includeBot a,
       form_coins = join_comma (arg_coins a), signal = previewReqRef s + 1\<rparr>]"
  by (cases "abortRef s") (simp_all add: callPreview_def Let_def)

lemma etl_effect_id: "previewReqRef (etl_effect (Some f) s) = previewReqRef s + 1"
  by (cases "cleanup s") (simp_all add: etl_effect_def Let_def)

lemma report_settle_applies:
  "report_try r = Inr p \<Longrightarrow>
   report_settle (previewReqRef s) r s =
     s\<lparr>meta := payload_meta p,
       coinsUSD := or_else (payload_USD p) [],
       coinsTHB := or_else (payload_THB p) [],
       rawPreview := or_else (payload_rawPreview p) EMPTY_PREVIEW,
       cleanPreview := or_else (payload_cleanPreview p) EMPTY_PREVIEW,
       loadingPreview := False\<rparr>"
  by (simp add: report_settle_def Let_def)

lemma etl_settle_applies:
  "etl_try r = Inr json \<Longrightarrow>
   etl_settle (previewReqRef s) r s = s\<lparr>previewData := Some json, previewLoading := False\<rparr>"
  by (simp add: etl_settle_def Let_def)

text \<open>
  Claim C1. In both flows every preview request takes the next request id (one more than
  the last), a settled request whose id is no longer the latest leaves the state as it
  is, whatever its outcome, and the latest request's successful reply is applied. So
  when R1 and R2 are issued in this order and R2 settles first, the late settling of R1
  is a no-op and the final state is the one R2's reply produced.
\<close>

theorem stale_preview_response_dropped:
  "(arg_file a = Some f \<longrightarrow>
       previewReqRef (callPreview a s) = previewReqRef s + 1
       \<and> map signal (sent (callPreview a s)) = map signal (sent s) @ [previewReqRef s + 1])
   \<and> previewReqRef (etl_effect (Some f) e) = previewReqRef e + 1
   \<and> (requestId \<noteq> previewReqRef s \<longrightarrow> report_settle requestId r s = s)
   \<and> (requestId \<noteq> previewReqRef e \<longrightarrow> etl_settle requestId r' e = e)
   \<and> (report_try r = Inr p \<longrightarrow>
        rawPreview (report_settle (previewReqRef s) r s) = or_else (payload_rawPreview p) EMPTY_PREVIEW
        \<and> cleanPreview (report_settle (previewReqRef s) r s)
            = or_else (payload_cleanPreview p) EMPTY_PREVIEW
        \<and> meta (report_settle (previewReqRef s) r s) = payload_meta p)
   \<and> (etl_try r' = Inr json \<longrightarrow>
        previewData (etl_settle (previewReqRef e) r' e) = Some json)
   \<and> (arg_file a1 = Some f1 \<and> arg_file a2 = Some f2 \<longrightarrow>
        previewReqRef (callPreview a1 s) < previewReqRef (callPreview a2 (callPreview a1 s))
        \<and> report_settle (previewReqRef (callPreview a1 s)) r1
             (report_settle (previewReqRef (callPreview a2 (callPreview a1 s))) r2
                (callPreview a2 (callPreview a1 s)))
            = report_settle (previewReqRef (callPreview a2 (callPreview a1 s))) r2
                (callPreview a2 (callPreview a1 s)))
   \<and> previewReqRef (etl_effect (Some f1) e) < previewReqRef (etl_effect (Some f2) (etl_effect (Some f1) e))
   \<and> etl_settle (previewReqRef (etl_effect (Some f1) e)) r1'
        (etl_settle (previewReqRef (etl_effect (Some f2) (etl_effect (Some f1) e))) r2'
           (etl_effect (Some f2) (etl_effect (Some f1) e)))
       = etl_settle (previewReqRef (etl_effect (Some f2) (etl_effect (Some f1) e))) r2'
           (etl_effect (Some f2) (etl_effect (Some f1) e))"
proof (intro conjI impI)
  assume "arg_file a = Some f"
  then show "previewReqRef (callPreview a s) = previewReqRef s + 1"
    and "map signal (sent (callPreview a s)) = map signal (sent s) @ [previewReqRef s + 1]"
    by (simp_all add: callPreview_id callPreview_sent)
next
  show "previewReqRef (etl_effect (Some f) e) = previewReqRef e + 1"
    by (rule etl_effect_id)
next
  assume "requestId \<noteq> previewReqRef s"
  then show "report_settle requestId r s = s" by (rule report_settle_stale)
next
  assume "requestId \<noteq> previewReqRef e"
  then show "etl_settle requestId r' e = e" by (rule etl_settle_stale)
next
  assume "report_try r = Inr p"
  then show "rawPreview (report_settle (previewReqRef s) r s) = or_else (payload_rawPreview p) EMPTY_PREVIEW"
    and "cleanPreview (report_settle (previewReqRef s) r s)
            = or_else (payload_cleanPreview p) EMPTY_PREVIEW"
    and "meta (report_settle (previewReqRef s) r s) = payload_meta p"
    by (simp_all add: report_settle_applies)
next
  assume "etl_try r' = Inr json"
  then show "previewData (etl_settle (previewReqRef e) r' e) = Some json"
    by (simp add: etl_settle_applies)
next
  assume a: "arg_file a1 = Some f1 \<and> arg_file a2 = Some f2"
  let ?s1 = "callPreview a1 s"
  let ?s2 = "callPreview a2 ?s1"
  have lt: "previewReqRef ?s1 < previewReqRef ?s2"
    using a callPreview_id[of a2 f2 ?s1] by simp
  show "previewReqRef ?s1 < previewReqRef ?s2" by (rule lt)
  have keep: "previewReqRef (report_settle (previewReqRef ?s2) r2 ?s2) = previewReqRef ?s2"
    by (cases "report_try r2") (auto simp: report_settle_def Let_def)
  show "report_settle (previewReqRef ?s1) r1 (report_settle (previewReqRef ?s2) r2 ?s2)
        = report_settle (previewReqRef ?s2) r2 ?s2"
    using lt keep by (intro report_settle_stale) simp
next
  let ?e1 = "etl_effect (Some f1) e"
  let ?e2 = "etl_effect (Some f2) ?e1"
  show lt: "previewReqRef ?e1 < previewReqRef ?e2"
    by (simp add: etl_effect_id)
  have keep: "previewReqRef (etl_settle (previewReqRef ?e2) r2' ?e2) = previewReqRef ?e2"
    by (cases "etl_try r2'") (auto simp: etl_settle_def Let_def)
  show "etl_settle (previewReqRef ?e1) r1' (etl_settle (previewReqRef ?e2) r2' ?e2)
        = etl_settle (previewReqRef ?e2) r2' ?e2"
    using lt keep by (intro etl_settle_stale) simp
qed


theorem stale_preview_response_dropped_witness:
  "previewReqRef (callPreview \<lparr>arg_file = Some 7, arg_asset = ''USD'', arg_includeBot = True, arg_coins = [],
        arg_showLoader = True\<rparr> report_init) = 1
   \<and> previewReqRef (callPreview \<lparr>arg_file = Some 7, arg_asset = ''USD'', arg_includeBot = True, arg_coins = [''BTC''],
        arg_showLoader = False\<rparr>
        (callPreview \<lparr>arg_file = Some 7, arg_asset = ''USD'', arg_includeBot = True, arg_coins = [],
        arg_showLoader = True\<rparr> report_init)) = 2
   \<and> rawPreview (report_settle 1 (Reply 200 (Parsed \<lparr>detail = None, payload_meta = None, payload_USD = Some [''BTC''],
        payload_THB = None, payload_rawPreview = Some \<lparr>rows = [], headers = [''first'']\<rparr>,
        payload_cleanPreview = None\<rparr>))
        (report_settle 2 (Reply 200 (Parsed \<lparr>detail = None, payload_meta = None, payload_USD = Some [''BTC''],
        payload_THB = None, payload_rawPreview = Some \<lparr>rows = [], headers = [''second'']\<rparr>,
        payload_cleanPreview = None\<rparr>))
          (callPreview \<lparr>arg_file = Some 7, arg_asset = ''USD'', arg_includeBot = True, arg_coins = [''BTC''],
        arg_showLoader = False\<rparr>
            (callPreview \<lparr>arg_file = Some 7, arg_asset = ''USD'', arg_includeBot = True, arg_coins = [],
        arg_showLoader = True\<rparr> report_init))))
       = \<lparr>rows = [], headers = [''second'']\<rparr>
   \<and> previewData (etl_settle 1 (Reply 200 ([], Parsed \<lparr>summary = Some ''first'', validation = \<lparr>error_count = 0, warning_count = 0,
        errors = [], warnings = []\<rparr>, raw = \<lparr>rows = [], columns = []\<rparr>,
        clean = \<lparr>rows = [], columns = []\<rparr>\<rparr>))
        (etl_settle 2 (Reply 200 ([], Parsed \<lparr>summary = Some ''second'', validation = \<lparr>error_count = 0, warning_count = 0,
        errors = [], warnings = []\<rparr>, raw = \<lparr>rows = [], columns = []\<rparr>,
        clean = \<lparr>rows = [], columns = []\<rparr>\<rparr>))
          (etl_effect (Some 7) (etl_effect (Some 7) etl_init))))
       = Some \<lparr>summary = Some ''second'', validation = \<lparr>error_count = 0, warning_count = 0,
        errors = [], warnings = []\<rparr>, raw = \<lparr>rows = [], columns = []\<rparr>,
        clean = \<lparr>rows = [], columns = []\<rparr>\<rparr>"
proof -
  let ?a1 = "\<lparr>arg_file = Some 7, arg_asset = ''USD'', arg_includeBot = True, arg_coins = [],
        arg_showLoader = True\<rparr>"
  let ?a2 = "\<lparr>arg_file = Some 7, arg_asset = ''USD'', arg_includeBot = True, arg_coins = [''BTC''],
        arg_showLoader = False\<rparr>"
  let ?r1 = "Reply 200 (Parsed \<lparr>detail = None, payload_meta = None, payload_USD = Some [''BTC''],
        payload_THB = None, payload_rawPreview = Some \<lparr>rows = [], headers = [''first'']\<rparr>,
        payload_cleanPreview = None\<rparr>)"
  let ?r2 = "Reply 200 (Parsed \<lparr>detail = None, payload_meta = None, payload_USD = Some [''BTC''],
        payload_THB = None, payload_rawPreview = Some \<lparr>rows = [], headers = [''second'']\<rparr>,
        payload_cleanPreview = None\<rparr>)"
  let ?e1 = "Reply 200 ([], Parsed \<lparr>summary = Some ''first'', validation = \<lparr>error_count = 0, warning_count = 0,
        errors = [], warnings = []\<rparr>, raw = \<lparr>rows = [], columns = []\<rparr>,
        clean = \<lparr>rows = [], columns = []\<rparr>\<rparr>)"
  let ?e2 = "Reply 200 ([], Parsed \<lparr>summary = Some ''second'', validation = \<lparr>error_count = 0, warning_count = 0,
        errors = [], warnings = []\<rparr>, raw = \<lparr>rows = [], columns = []\<rparr>,
        clean = \<lparr>rows = [], columns = []\<rparr>\<rparr>)"
  let ?s2 = "callPreview ?a2 (callPreview ?a1 report_init)"
  let ?x2 = "etl_effect (Some 7) (etl_effect (Some 7) etl_init)"
  note t = stale_preview_response_dropped[where ?a1.0="?a1" and ?a2.0="?a2" and ?f1.0=7
      and ?f2.0=7 and s=report_init and ?r1.0="?r1" and ?r2.0="?r2" and e=etl_init
      and ?r1'="?e1" and ?r2'="?e2"]
  have i1: "previewReqRef (callPreview ?a1 report_init) = 1"
    by (simp add: callPreview_def report_init_def)
  have i2: "previewReqRef ?s2 = 2"
    by (simp add: callPreview_def report_init_def)
  have j1: "previewReqRef (etl_effect (Some 7) etl_init) = 1"
    by (simp add: etl_effect_def etl_init_def)
  have j2: "previewReqRef ?x2 = 2"
    by (simp add: etl_effect_def etl_init_def)
  have late: "report_settle 1 ?r1 (report_settle 2 ?r2 ?s2) = report_settle 2 ?r2 ?s2"
    using t i1 i2 by simp
  have late': "etl_settle 1 ?e1 (etl_settle 2 ?e2 ?x2) = etl_settle 2 ?e2 ?x2"
    using t j1 j2 by simp
  have v: "rawPreview (report_settle 2 ?r2 ?s2) = \<lparr>rows = [], headers = [''second'']\<rparr>"
    using i2 by (simp add: report_settle_def report_try_def res_ok_def or_else_def)
  have v': "previewData (etl_settle 2 ?e2 ?x2) = Some \<lparr>summary = Some ''second'', validation = \<lparr>error_count = 0, warning_count = 0,
        errors = [], warnings = []\<rparr>, raw = \<lparr>rows = [], columns = []\<rparr>,
        clean = \<lparr>rows = [], columns = []\<rparr>\<rparr>"
    using j2 by (simp add: etl_settle_def etl_try_def res_ok_def)
  show ?thesis unfolding late late' by (intro conjI i1 i2 v v')
qed


subsection \<open>A request that has been superseded has been aborted\<close>

lemma etl_settle_refs:
  "previewReqRef (etl_settle k r s) = previewReqRef s
   \<and> aborted (etl_settle k r s) = aborted s
   \<and> cleanup (etl_settle k r s) = cleanup s"
  by (cases "etl_try r") (auto simp: etl_settle_def Let_def)

lemma etl_invariant:
  "etl_reachable s \<Longrightarrow>
     (\<forall>k. 1 \<le> k \<and> k < previewReqRef s \<longrightarrow> k \<in> aborted s)
     \<and> (case cleanup s of
          None \<Rightarrow> previewReqRef s = 0 \<or> previewReqRef s \<in> aborted s
        | Some ctrl \<Rightarrow> ctrl = previewReqRef s)"
proof (induction rule: etl_reachable.induct)
  case etl_start
  show ?case by (simp add: etl_init_def)
next
  case (etl_run s f)
  then show ?case
    by (cases f; cases "cleanup s") (auto simp: etl_effect_def Let_def less_Suc_eq)
next
  case (etl_gone s)
  then show ?case
    by (cases "cleanup s") (auto simp: etl_unmount_def)
next
  case (etl_reply s requestId r)
  then show ?case by (simp add: etl_settle_refs split: option.splits)
qed

lemma etl_live_is_latest:
  assumes "etl_reachable s" "1 \<le> k" "k \<le> previewReqRef s" "k \<notin> aborted s"
  shows "k = previewReqRef s"
proof (rule ccontr)
  assume "k \<noteq> previewReqRef s"
  then have "k < previewReqRef s" using assms(3) by simp
  then have "k \<in> aborted s" using etl_invariant[OF assms(1)] assms(2) by blast
  then show False using assms(4) by simp
qed

lemma report_settle_refs:
  "previewReqRef (report_settle k r s) = previewReqRef s
   \<and> aborted (report_settle k r s) = aborted s
   \<and> abortRef (report_settle k r s) = abortRef s"
  by (cases "report_try r") (auto simp: report_settle_def Let_def)

lemma schedule_effect_refs:
  "previewReqRef (schedule_effect file asset includeBot selected s) = previewReqRef s
   \<and> aborted (schedule_effect file asset includeBot selected s) = aborted s
   \<and> abortRef (schedule_effect file asset includeBot selected s) = abortRef s"
  by (cases "file") (simp_all add: schedule_effect_def Let_def)

lemma callPreview_invariant:
  assumes "\<forall>k. 1 \<le> k \<and> k < previewReqRef s \<longrightarrow> k \<in> aborted s"
    and "abortRef s = (if previewReqRef s = 0 then None else Some (previewReqRef s))"
  shows "(\<forall>k. 1 \<le> k \<and> k < previewReqRef (callPreview a s) \<longrightarrow> k \<in> aborted (callPreview a s))
     \<and> abortRef (callPreview a s)
         = (if previewReqRef (callPreview a s) = 0 then None
            else Some (previewReqRef (callPreview a s)))"
proof (cases "arg_file a")
  case None
  with assms show ?thesis by (simp add: callPreview_def)
next
  case (Some f)
  show ?thesis
  proof (cases "previewReqRef s = 0")
    case True
    with assms Some show ?thesis by (simp add: callPreview_def Let_def)
  next
    case False
    with assms Some show ?thesis by (auto simp: callPreview_def Let_def less_Suc_eq)
  qed
qed

lemma report_invariant:
  "report_reachable s \<Longrightarrow>
     (\<forall>k. 1 \<le> k \<and> k < previewReqRef s \<longrightarrow> k \<in> aborted s)
     \<and> abortRef s = (if previewReqRef s = 0 then None else Some (previewReqRef s))"
proof (induction rule: report_reachable.induct)
  case report_start
  show ?case by (simp add: report_init_def)
next
  case (report_gone s)
  then show ?case by (cases "abortRef s") (auto simp: report_unmount_def split: if_splits)
next
  case (report_change s f asset includeBot selected)
  then show ?case by (simp add: schedule_effect_refs)
next
  case (report_time s d)
  show ?case
  proof (cases "timer s")
    case None
    with report_time.IH show ?thesis by (simp add: elapse_def)
  next
    case (Some t)
    obtain due a where t: "t = (due, a)" by (cases t)
    show ?thesis
    proof (cases "due \<le> clock s + d")
      case True
      let ?s1 = "s\<lparr>clock := clock s + d, timer := None\<rparr>"
      have e: "elapse d s = callPreview a ?s1"
        using Some t True by (simp add: elapse_def)
      show ?thesis
        unfolding e using report_time.IH by (intro callPreview_invariant) simp_all
    next
      case False
      with Some t report_time.IH show ?thesis by (simp add: elapse_def)
    qed
  qed
next
  case (report_reply s requestId r)
  then show ?case by (simp add: report_settle_refs)
qed

lemma report_live_is_latest:
  assumes "report_reachable s" "1 \<le> k" "k \<le> previewReqRef s" "k \<notin> aborted s"
  shows "k = previewReqRef s"
proof (rule ccontr)
  assume "k \<noteq> previewReqRef s"
  then have "k < previewReqRef s" using assms(3) by simp
  then have "k \<in> aborted s" using report_invariant[OF assms(1)] assms(2) by blast
  then show False using assms(4) by simp
qed


subsection \<open>Failures and aborts\<close>

text \<open>
  Claim C7 says that an aborted preview request changes no state at all. It does change
  the loading flag when it is still the latest request: in the ETL flow, when the file is
  reset while request 1 is loading, the effect aborts the request without issuing a new
  one, and the \<open>finally\<close> block of the aborted request then clears \<open>previewLoading\<close>.
\<close>

theorem aborted_preview_counterexample:
  "1 \<in> aborted (etl_effect None (etl_effect (Some 7) etl_init))
   \<and> previewLoading (etl_effect None (etl_effect (Some 7) etl_init)) = True
   \<and> previewLoading (etl_settle 1 (Rejected (JsError ''AbortError'' ''The operation was aborted.''))
        (etl_effect None (etl_effect (Some 7) etl_init))) = False
   \<and> etl_settle 1 (Rejected (JsError ''AbortError'' ''The operation was aborted.''))
        (etl_effect None (etl_effect (Some 7) etl_init))
       \<noteq> etl_effect None (etl_effect (Some 7) etl_init)"
proof -
  let ?e = "etl_effect None (etl_effect (Some 7) etl_init)"
  let ?r = "Rejected (JsError ''AbortError'' ''The operation was aborted.'')"
  have 1: "1 \<in> aborted ?e" and 2: "previewLoading ?e = True"
    by (simp_all add: etl_effect_def etl_init_def)
  have 3: "previewLoading (etl_settle 1 ?r ?e) = False"
    by (simp add: etl_settle_def etl_try_def etl_effect_def etl_init_def)
  have 4: "etl_settle 1 ?r ?e \<noteq> ?e"
  proof
    assume "etl_settle 1 ?r ?e = ?e"
    then have "previewLoading (etl_settle 1 ?r ?e) = previewLoading ?e" by simp
    with 2 3 show False by simp
  qed
  show ?thesis using 1 2 3 4 by (intro conjI)
qed

text \<open>
  Claim C7, amended. When a preview request that has been issued and not aborted fails,
  the ETL flow replaces the preview data with a synthetic payload that has
  \<open>error_count\<close> 1, the single error \<open>{row: 1, field: "Preview", message}\<close> and empty raw
  and clean tables, and the report flow sets the error message and leaves the preview
  tables, the metadata and the coin lists as they are; both clear the loading flag. An
  aborted request (an \<open>AbortError\<close>, or any failure once its controller is aborted) never
  changes the preview data or the error message: the only state it touches is the
  loading flag, which it clears when it is still the latest request.
\<close>

theorem preview_failure_handling:
  "(etl_reachable e \<and> 1 \<le> k \<and> k \<le> previewReqRef e \<and> k \<notin> aborted e
      \<and> etl_try r = Inl err \<and> err_name err \<noteq> ''AbortError''
    \<longrightarrow> etl_settle k r e
          = e\<lparr>previewData := Some (synthetic_preview (error_text err)), previewLoading := False\<rparr>)
   \<and> error_count (validation (synthetic_preview msg)) = 1
   \<and> errors (validation (synthetic_preview msg))
       = [\<lparr>row = 1, field = ''Preview'', message = msg\<rparr>]
   \<and> raw (synthetic_preview msg) = \<lparr>rows = [], columns = []\<rparr>
   \<and> clean (synthetic_preview msg) = \<lparr>rows = [], columns = []\<rparr>
   \<and> (report_reachable s \<and> 1 \<le> k \<and> k \<le> previewReqRef s \<and> k \<notin> aborted s
      \<and> report_try r' = Inl err \<and> err_name err \<noteq> ''AbortError''
    \<longrightarrow> report_settle k r' s = s\<lparr>errorMsg := error_text err, loadingPreview := False\<rparr>)
   \<and> (etl_try r = Inl err \<and> (err_name err = ''AbortError'' \<or> k \<in> aborted e)
    \<longrightarrow> etl_settle k r e = (if previewReqRef e = k then e\<lparr>previewLoading := False\<rparr> else e))
   \<and> (report_try r' = Inl err \<and> (err_name err = ''AbortError'' \<or> k \<in> aborted s)
    \<longrightarrow> report_settle k r' s
          = (if previewReqRef s = k then s\<lparr>loadingPreview := False\<rparr> else s))"
proof (intro conjI impI)
  assume a: "etl_reachable e \<and> 1 \<le> k \<and> k \<le> previewReqRef e \<and> k \<notin> aborted e
      \<and> etl_try r = Inl err \<and> err_name err \<noteq> ''AbortError''"
  then have "k = previewReqRef e" using etl_live_is_latest by blast
  with a show "etl_settle k r e
          = e\<lparr>previewData := Some (synthetic_preview (error_text err)), previewLoading := False\<rparr>"
    by (simp add: etl_settle_def Let_def)
next
  show "error_count (validation (synthetic_preview msg)) = 1"
    and "errors (validation (synthetic_preview msg)) = [\<lparr>row = 1, field = ''Preview'', message = msg\<rparr>]"
    and "raw (synthetic_preview msg) = \<lparr>rows = [], columns = []\<rparr>"
    and "clean (synthetic_preview msg) = \<lparr>rows = [], columns = []\<rparr>"
    by (simp_all add: synthetic_preview_def)
next
  assume a: "report_reachable s \<and> 1 \<le> k \<and> k \<le> previewReqRef s \<and> k \<notin> aborted s
      \<and> report_try r' = Inl err \<and> err_name err \<noteq> ''AbortError''"
  then have "k = previewReqRef s" using report_live_is_latest by blast
  with a show "report_settle k r' s = s\<lparr>errorMsg := error_text err, loadingPreview := False\<rparr>"
    by (simp add: report_settle_def Let_def)
next
  assume "etl_try r = Inl err \<and> (err_name err = ''AbortError'' \<or> k \<in> aborted e)"
  then show "etl_settle k r e = (if previewReqRef e = k then e\<lparr>previewLoading := False\<rparr> else e)"
    by (auto simp: etl_settle_def Let_def)
next
  assume "report_try r' = Inl err \<and> (err_name err = ''AbortError'' \<or> k \<in> aborted s)"
  then show "report_settle k r' s
          = (if previewReqRef s = k then s\<lparr>loadingPreview := False\<rparr> else s)"
    by (auto simp: report_settle_def Let_def)
qed

theorem preview_failure_handling_witness:
  "etl_reachable (etl_effect (Some 7) etl_init)
   \<and> previewData (etl_settle 1 (Reply 500 (''boom'', Malformed [])) (etl_effect (Some 7) etl_init))
       = Some (synthetic_preview ''boom'')
   \<and> report_reachable (elapse 0 (schedule_effect (Some 7) ''USD'' True [] report_init))
   \<and> errorMsg (report_settle 1 (Reply 404 (Parsed \<lparr>detail = Some ''No such file'', payload_meta = None,
        payload_USD = None, payload_THB = None, payload_rawPreview = None,
        payload_cleanPreview = None\<rparr>))
        (elapse 0 (schedule_effect (Some 7) ''USD'' True [] report_init))) = ''No such file''
   \<and> rawPreview (report_settle 1 (Reply 404 (Parsed \<lparr>detail = Some ''No such file'', payload_meta = None,
        payload_USD = None, payload_THB = None, payload_rawPreview = None,
        payload_cleanPreview = None\<rparr>))
        (elapse 0 (schedule_effect (Some 7) ''USD'' True [] report_init))) = EMPTY_PREVIEW
   \<and> previewData (etl_settle 1 (Rejected (JsError ''AbortError'' ''The operation was aborted.''))
        (etl_effect None (etl_effect (Some 7) etl_init))) = None
   \<and> errorMsg (report_settle 1 (Rejected (JsError ''AbortError'' ''The operation was aborted.''))
        (elapse 0 (schedule_effect (Some 7) ''USD'' True [] report_init))) = []"
proof -
  let ?e1 = "etl_effect (Some 7) etl_init"
  let ?e2 = "etl_effect None (etl_effect (Some 7) etl_init)"
  let ?s1 = "elapse 0 (schedule_effect (Some 7) ''USD'' True [] report_init)"
  let ?er = "Reply 500 (''boom'', Malformed [])"
  let ?rp = "Reply 404 (Parsed \<lparr>detail = Some ''No such file'', payload_meta = None,
        payload_USD = None, payload_THB = None, payload_rawPreview = None,
        payload_cleanPreview = None\<rparr>)"
  let ?ab = "Rejected (JsError ''AbortError'' ''The operation was aborted.'')"
  have re: "etl_reachable ?e1" by (intro etl_reachable.intros)
  have rs: "report_reachable ?s1" by (intro report_reachable.intros)
  have e1: "previewReqRef ?e1 = 1" "1 \<notin> aborted ?e1"
    by (simp_all add: etl_effect_def etl_init_def)
  have s1: "previewReqRef ?s1 = 1" "1 \<notin> aborted ?s1" "errorMsg ?s1 = []"
    "rawPreview ?s1 = EMPTY_PREVIEW"
    by (simp_all add: elapse_def schedule_effect_def callPreview_def report_init_def)
  have t1: "etl_try ?er = Inl (JsError ''Error'' ''boom'')"
    by (simp add: etl_try_def res_ok_def)
  have t2: "report_try ?rp = Inl (JsError ''Error'' ''No such file'')"
    by (simp add: report_try_def res_ok_def detail_or_status_def)
  have a1: "etl_settle 1 ?er ?e1
      = ?e1\<lparr>previewData := Some (synthetic_preview (error_text (JsError ''Error'' ''boom''))),
            previewLoading := False\<rparr>"
    using preview_failure_handling[where e="?e1" and k=1 and r="?er"
        and err="JsError ''Error'' ''boom''"] re e1 t1
    by simp
  have a2: "report_settle 1 ?rp ?s1
      = ?s1\<lparr>errorMsg := error_text (JsError ''Error'' ''No such file''), loadingPreview := False\<rparr>"
    using preview_failure_handling[where s="?s1" and k=1 and r'="?rp"
        and err="JsError ''Error'' ''No such file''"] rs s1 t2
    by simp
  have a3: "etl_settle 1 ?ab ?e2 = (if previewReqRef ?e2 = 1 then ?e2\<lparr>previewLoading := False\<rparr> else ?e2)"
    using preview_failure_handling[where e="?e2" and k=1 and r="?ab"
        and err="JsError ''AbortError'' ''The operation was aborted.''"]
    by (simp add: etl_try_def)
  have a4: "report_settle 1 ?ab ?s1
      = (if previewReqRef ?s1 = 1 then ?s1\<lparr>loadingPreview := False\<rparr> else ?s1)"
    using preview_failure_handling[where s="?s1" and k=1 and r'="?ab"
        and err="JsError ''AbortError'' ''The operation was aborted.''"]
    by (simp add: report_try_def)
  have c1: "previewData (etl_settle 1 ?er ?e1) = Some (synthetic_preview ''boom'')"
    unfolding a1 by (simp add: error_text_def)
  have c2: "errorMsg (report_settle 1 ?rp ?s1) = ''No such file''"
    unfolding a2 by (simp add: error_text_def)
  have c3: "rawPreview (report_settle 1 ?rp ?s1) = EMPTY_PREVIEW"
    unfolding a2 using s1(4) by simp
  have c4: "previewData (etl_settle 1 ?ab ?e2) = None"
    unfolding a3 by (simp add: etl_effect_def etl_init_def)
  have c5: "errorMsg (report_settle 1 ?ab ?s1) = []"
    unfolding a4 using s1(3) by simp
  show ?thesis by (intro conjI re rs c1 c2 c3 c4 c5)
qed


subsection \<open>Scheduling\<close>

lemma schedule_effect_timer:
  "timer (schedule_effect (Some f) asset includeBot selected s) =
     Some (clock s + (if prevPreviewConfigRef s
                         \<noteq> \<lparr>cfg_file = Some f, cfg_asset = asset, cfg_includeBot = includeBot\<rparr>
                      then 0 else 260),
           \<lparr>arg_file = Some f, arg_asset = asset, arg_includeBot = includeBot,
            arg_coins = selectedCoins asset selected s,
            arg_showLoader = (prevPreviewConfigRef s
                         \<noteq> \<lparr>cfg_file = Some f, cfg_asset = asset, cfg_includeBot = includeBot\<rparr>)\<rparr>)"
  by (cases "prevPreviewConfigRef s")
     (auto simp: schedule_effect_def Let_def selectedCoins_def)

lemma schedule_effect_rest:
  "schedule_effect (Some f) asset includeBot selected s =
     s\<lparr>prevPreviewConfigRef := \<lparr>cfg_file = Some f, cfg_asset = asset, cfg_includeBot = includeBot\<rparr>,
       timer := timer (schedule_effect (Some f) asset includeBot selected s)\<rparr>"
  by (simp add: schedule_effect_def Let_def)

lemma schedule_effect_replaces:
  "schedule_effect fl asset includeBot selected (s\<lparr>timer := t\<rparr>)
     = schedule_effect fl asset includeBot selected s"
  by (cases fl) (simp_all add: schedule_effect_def Let_def)

lemma same_config_update:
  "prevPreviewConfigRef s = c \<Longrightarrow> s\<lparr>prevPreviewConfigRef := c\<rparr> = s"
  by auto

lemma quiet_step:
  assumes c: "prevPreviewConfigRef s
                = \<lparr>cfg_file = Some f, cfg_asset = asset, cfg_includeBot = includeBot\<rparr>"
    and g: "gap < 260"
  shows "elapse gap (schedule_effect (Some f) asset includeBot selected s) =
           s\<lparr>timer := Some (clock s + 260,
                  \<lparr>arg_file = Some f, arg_asset = asset, arg_includeBot = includeBot,
                   arg_coins = selectedCoins asset selected s, arg_showLoader = False\<rparr>),
              clock := clock s + gap\<rparr>"
proof -
  have t: "timer (schedule_effect (Some f) asset includeBot selected s) =
      Some (clock s + 260,
            \<lparr>arg_file = Some f, arg_asset = asset, arg_includeBot = includeBot,
             arg_coins = selectedCoins asset selected s, arg_showLoader = False\<rparr>)"
    using c by (simp add: schedule_effect_timer)
  have r: "schedule_effect (Some f) asset includeBot selected s =
      s\<lparr>timer := Some (clock s + 260,
            \<lparr>arg_file = Some f, arg_asset = asset, arg_includeBot = includeBot,
             arg_coins = selectedCoins asset selected s, arg_showLoader = False\<rparr>)\<rparr>"
    by (subst schedule_effect_rest) (simp add: t same_config_update[OF c])
  show ?thesis
    unfolding r using g by (simp add: elapse_def)
qed

lemma burst_quiet:
  assumes "prevPreviewConfigRef s
             = \<lparr>cfg_file = Some f, cfg_asset = asset, cfg_includeBot = includeBot\<rparr>"
    and "\<forall>(selected, gap)\<in>set changes. gap < 260"
  shows "\<exists>t c. burst changes (Some f) asset includeBot s = s\<lparr>timer := t, clock := c\<rparr>"
  using assms
proof (induction changes arbitrary: s)
  case Nil
  have "s = s\<lparr>timer := timer s, clock := clock s\<rparr>" by simp
  then show ?case by (metis burst.simps(1))
next
  case (Cons ch changes)
  obtain selected gap where ch: "ch = (selected, gap)" by (cases ch)
  let ?s1 = "elapse gap (schedule_effect (Some f) asset includeBot selected s)"
  have g: "gap < 260" using Cons.prems(2) ch by simp
  have s1: "?s1 = s\<lparr>timer := Some (clock s + 260,
                  \<lparr>arg_file = Some f, arg_asset = asset, arg_includeBot = includeBot,
                   arg_coins = selectedCoins asset selected s, arg_showLoader = False\<rparr>),
              clock := clock s + gap\<rparr>"
    by (rule quiet_step[OF Cons.prems(1) g])
  have c1: "prevPreviewConfigRef ?s1
              = \<lparr>cfg_file = Some f, cfg_asset = asset, cfg_includeBot = includeBot\<rparr>"
    unfolding s1 using Cons.prems(1) by simp
  have r: "\<forall>(selected, gap)\<in>set changes. gap < 260" using Cons.prems(2) by simp
  obtain t c where "burst changes (Some f) asset includeBot ?s1 = ?s1\<lparr>timer := t, clock := c\<rparr>"
    using Cons.IH[OF c1 r] by blast
  then have "burst (ch # changes) (Some f) asset includeBot s = s\<lparr>timer := t, clock := c\<rparr>"
    unfolding ch by (simp add: s1)
  then show ?case by blast
qed

lemma debounced_call:
  assumes c: "prevPreviewConfigRef s
                = \<lparr>cfg_file = Some f, cfg_asset = asset, cfg_includeBot = includeBot\<rparr>"
    and d: "260 \<le> d"
  shows "elapse d (schedule_effect (Some f) asset includeBot selected (s\<lparr>timer := t, clock := c0\<rparr>))
         = callPreview \<lparr>arg_file = Some f, arg_asset = asset, arg_includeBot = includeBot,
                        arg_coins = selectedCoins asset selected s, arg_showLoader = False\<rparr>
             (s\<lparr>clock := c0 + d, timer := None\<rparr>)"
proof -
  let ?s = "s\<lparr>timer := t, clock := c0\<rparr>"
  have c': "prevPreviewConfigRef ?s
              = \<lparr>cfg_file = Some f, cfg_asset = asset, cfg_includeBot = includeBot\<rparr>"
    using c by simp
  have t: "timer (schedule_effect (Some f) asset includeBot selected ?s) =
      Some (c0 + 260,
            \<lparr>arg_file = Some f, arg_asset = asset, arg_includeBot = includeBot,
             arg_coins = selectedCoins asset selected s, arg_showLoader = False\<rparr>)"
    using c' by (simp add: schedule_effect_timer selectedCoins_def)
  have r: "schedule_effect (Some f) asset includeBot selected ?s =
      s\<lparr>timer := Some (c0 + 260,
            \<lparr>arg_file = Some f, arg_asset = asset, arg_includeBot = includeBot,
             arg_coins = selectedCoins asset selected s, arg_showLoader = False\<rparr>),
        clock := c0\<rparr>"
    by (subst schedule_effect_rest) (simp add: t same_config_update[OF c'])
  show ?thesis
    unfolding r using d by (simp add: elapse_def)
qed


lemma elapse_fires:
  "timer s = Some (due, a) \<Longrightarrow> due \<le> clock s + d \<Longrightarrow>
   elapse d s = callPreview a (s\<lparr>clock := clock s + d, timer := None\<rparr>)"
  by (simp add: elapse_def)

lemma callPreview_loading:
  "arg_file a = Some f \<Longrightarrow>
   loadingPreview (callPreview a s) = (arg_showLoader a \<or> loadingPreview s)"
  by (cases "abortRef s") (simp_all add: callPreview_def Let_def)

lemma schedule_effect_keeps:
  "sent (schedule_effect fl asset includeBot selected s) = sent s
   \<and> loadingPreview (schedule_effect fl asset includeBot selected s) = loadingPreview s
   \<and> clock (schedule_effect fl asset includeBot selected s) = clock s"
  by (cases fl) (simp_all add: schedule_effect_def Let_def)

lemma structural_iff:
  "prevPreviewConfigRef s \<noteq> \<lparr>cfg_file = Some f, cfg_asset = asset, cfg_includeBot = includeBot\<rparr>
   \<longleftrightarrow> cfg_file (prevPreviewConfigRef s) \<noteq> Some f
       \<or> cfg_asset (prevPreviewConfigRef s) \<noteq> asset
       \<or> cfg_includeBot (prevPreviewConfigRef s) \<noteq> includeBot"
  by (cases "prevPreviewConfigRef s") auto

lemma structural_call:
  assumes "prevPreviewConfigRef s \<noteq> \<lparr>cfg_file = Some f, cfg_asset = asset, cfg_includeBot = includeBot\<rparr>"
  shows "timer (schedule_effect (Some f) asset includeBot selected s) = Some (clock s, \<lparr>arg_file = Some f, arg_asset = asset, arg_includeBot = includeBot,
               arg_coins = selectedCoins asset selected s, arg_showLoader = True\<rparr>)"
    and "loadingPreview (elapse 0 (schedule_effect (Some f) asset includeBot selected s)) = True"
    and "sent (elapse 0 (schedule_effect (Some f) asset includeBot selected s)) = sent s @ [\<lparr>form_file = f, form_asset = asset, form_include_bot = includeBot,
               form_coins = join_comma (selectedCoins asset selected s),
               signal = previewReqRef s + 1\<rparr>]"
proof -
  let ?s1 = "schedule_effect (Some f) asset includeBot selected s"
  let ?a = "\<lparr>arg_file = Some f, arg_asset = asset, arg_includeBot = includeBot,
               arg_coins = selectedCoins asset selected s, arg_showLoader = True\<rparr>"
  show t: "timer ?s1 = Some (clock s, ?a)"
    using assms by (simp add: schedule_effect_timer)
  have e: "elapse 0 ?s1 = callPreview ?a (?s1\<lparr>clock := clock ?s1 + 0, timer := None\<rparr>)"
    by (rule elapse_fires[OF t]) (simp add: schedule_effect_keeps)
  show "loadingPreview (elapse 0 ?s1) = True"
    unfolding e by (simp add: callPreview_loading)
  show "sent (elapse 0 ?s1) = sent s @ [\<lparr>form_file = f, form_asset = asset, form_include_bot = includeBot,
               form_coins = join_comma (selectedCoins asset selected s),
               signal = previewReqRef s + 1\<rparr>]"
    unfolding e by (simp add: callPreview_sent schedule_effect_keeps schedule_effect_refs)
qed

lemma refinement_call:
  assumes c: "prevPreviewConfigRef s = \<lparr>cfg_file = Some f, cfg_asset = asset, cfg_includeBot = includeBot\<rparr>"
  shows "timer (schedule_effect (Some f) asset includeBot selected s) = Some (clock s + 260, \<lparr>arg_file = Some f, arg_asset = asset, arg_includeBot = includeBot,
               arg_coins = selectedCoins asset selected s, arg_showLoader = False\<rparr>)"
    and "d < 260 \<Longrightarrow> sent (elapse d (schedule_effect (Some f) asset includeBot selected s)) = sent s
           \<and> loadingPreview (elapse d (schedule_effect (Some f) asset includeBot selected s)) = loadingPreview s"
    and "260 \<le> d \<Longrightarrow> sent (elapse d (schedule_effect (Some f) asset includeBot selected s)) = sent s @ [\<lparr>form_file = f, form_asset = asset, form_include_bot = includeBot,
               form_coins = join_comma (selectedCoins asset selected s),
               signal = previewReqRef s + 1\<rparr>]
           \<and> loadingPreview (elapse d (schedule_effect (Some f) asset includeBot selected s)) = loadingPreview s"
proof -
  show "timer (schedule_effect (Some f) asset includeBot selected s) = Some (clock s + 260, \<lparr>arg_file = Some f, arg_asset = asset, arg_includeBot = includeBot,
               arg_coins = selectedCoins asset selected s, arg_showLoader = False\<rparr>)"
    using c by (simp add: schedule_effect_timer)
  show "sent (elapse d (schedule_effect (Some f) asset includeBot selected s)) = sent s
           \<and> loadingPreview (elapse d (schedule_effect (Some f) asset includeBot selected s)) = loadingPreview s" if "d < 260"
    by (simp add: quiet_step[OF c that])
  show "sent (elapse d (schedule_effect (Some f) asset includeBot selected s)) = sent s @ [\<lparr>form_file = f, form_asset = asset, form_include_bot = includeBot,
               form_coins = join_comma (selectedCoins asset selected s),
               signal = previewReqRef s + 1\<rparr>]
           \<and> loadingPreview (elapse d (schedule_effect (Some f) asset includeBot selected s)) = loadingPreview s" if "260 \<le> d"
  proof -
    have "s = s\<lparr>timer := timer s, clock := clock s\<rparr>" by simp
    then have "elapse d (schedule_effect (Some f) asset includeBot selected s)
        = callPreview \<lparr>arg_file = Some f, arg_asset = asset, arg_includeBot = includeBot,
               arg_coins = selectedCoins asset selected s, arg_showLoader = False\<rparr>
            (s\<lparr>clock := clock s + d, timer := None\<rparr>)"
      using debounced_call[OF c that, where selected=selected and t="timer s" and ?c0.0="clock s"]
      by simp
    then show ?thesis by (simp add: callPreview_sent callPreview_loading)
  qed
qed

lemma callPreview_timer: "timer (callPreview a s) = timer s"
  by (cases "arg_file a"; cases "abortRef s") (simp_all add: callPreview_def Let_def)

lemma callPreview_config: "prevPreviewConfigRef (callPreview a s) = prevPreviewConfigRef s"
  by (cases "arg_file a"; cases "abortRef s") (simp_all add: callPreview_def Let_def)

lemma callPreview_clock: "clock (callPreview a s) = clock s"
  by (cases "arg_file a"; cases "abortRef s") (simp_all add: callPreview_def Let_def)

lemma burst_collapses:
  assumes c: "prevPreviewConfigRef s = \<lparr>cfg_file = Some f, cfg_asset = asset, cfg_includeBot = includeBot\<rparr>"
    and q: "\<forall>(x, gap)\<in>set changes. gap < 260"
    and d: "260 \<le> d"
  shows "sent (elapse d (schedule_effect (Some f) asset includeBot selected
                (burst changes (Some f) asset includeBot s))) = sent s @ [\<lparr>form_file = f, form_asset = asset, form_include_bot = includeBot,
               form_coins = join_comma (selectedCoins asset selected s),
               signal = previewReqRef s + 1\<rparr>]"
    and "loadingPreview (elapse d (schedule_effect (Some f) asset includeBot selected
                (burst changes (Some f) asset includeBot s))) = loadingPreview s"
    and "timer (elapse d (schedule_effect (Some f) asset includeBot selected
                (burst changes (Some f) asset includeBot s))) = None"
proof -
  obtain t c0 where b: "burst changes (Some f) asset includeBot s = s\<lparr>timer := t, clock := c0\<rparr>"
    using burst_quiet[OF c q] by blast
  show "sent (elapse d (schedule_effect (Some f) asset includeBot selected
                (burst changes (Some f) asset includeBot s))) = sent s @ [\<lparr>form_file = f, form_asset = asset, form_include_bot = includeBot,
               form_coins = join_comma (selectedCoins asset selected s),
               signal = previewReqRef s + 1\<rparr>]"
    unfolding b debounced_call[OF c d] by (simp add: callPreview_sent)
  show "loadingPreview (elapse d (schedule_effect (Some f) asset includeBot selected
                (burst changes (Some f) asset includeBot s))) = loadingPreview s"
    unfolding b debounced_call[OF c d] by (simp add: callPreview_loading)
  show "timer (elapse d (schedule_effect (Some f) asset includeBot selected
                (burst changes (Some f) asset includeBot s))) = None"
    unfolding b debounced_call[OF c d] by (simp add: callPreview_timer)
qed

lemma schedule_effect_records:
  "prevPreviewConfigRef (schedule_effect fl asset includeBot selected s)
     = \<lparr>cfg_file = fl, cfg_asset = asset, cfg_includeBot = includeBot\<rparr>"
  by (cases fl) (simp_all add: schedule_effect_def Let_def)

lemma schedule_effect_no_file:
  "timer (schedule_effect None asset includeBot selected s) = None"
  by (simp add: schedule_effect_def)

lemma elapse_keeps_config: "prevPreviewConfigRef (elapse d s) = prevPreviewConfigRef s"
proof (cases "timer s")
  case None
  then show ?thesis by (simp add: elapse_def)
next
  case (Some p)
  obtain due a where "p = (due, a)" by (cases p)
  with Some show ?thesis by (simp add: elapse_def Let_def callPreview_config)
qed

lemma report_settle_keeps_config:
  "prevPreviewConfigRef (report_settle k r s) = prevPreviewConfigRef s"
  by (cases "report_try r") (auto simp: report_settle_def Let_def)

lemma elapse_clock: "clock (elapse d s) = clock s + d"
proof (cases "timer s")
  case None
  then show ?thesis by (simp add: elapse_def)
next
  case (Some p)
  obtain due a where "p = (due, a)" by (cases p)
  with Some show ?thesis by (simp add: elapse_def Let_def callPreview_clock)
qed

lemma elapse_idle: "timer s = None \<Longrightarrow> sent (elapse d s) = sent s \<and> timer (elapse d s) = None"
  by (simp add: elapse_def)

lemma next_run_is_refinement:
  "timer (schedule_effect (Some f) asset includeBot selected2
             (elapse d0 (schedule_effect (Some f) asset includeBot selected s)))
     = Some (clock s + d0 + 260,
             \<lparr>arg_file = Some f, arg_asset = asset, arg_includeBot = includeBot,
               arg_coins = selectedCoins asset selected2 (elapse d0 (schedule_effect (Some f) asset includeBot selected s)), arg_showLoader = False\<rparr>)"
  by (simp add: schedule_effect_timer elapse_keeps_config schedule_effect_records elapse_clock
      schedule_effect_keeps)

text \<open>
  Claim C2. Every run of the scheduling effect records the file, the asset and
  \<open>includeBot\<close> of its render in \<open>prevPreviewConfigRef\<close>, where they stay until the next
  run, and replaces the pending timer, whatever it was; without a file it sets no timer.
  A run after a structural change (the file, the asset or \<open>includeBot\<close> differs from the
  recorded configuration) sets a timer with delay 0 whose call shows the loading
  indicator, and the request goes out as soon as time moves on. A run after a refinement
  (the configuration is the recorded one, as it is in every run that follows a run with
  the same file, asset and \<open>includeBot\<close>) sets a timer due 260 milliseconds later whose
  call does not show the indicator: nothing is sent before that, one request is sent
  after. So a burst of refinements, each followed by less than 260 milliseconds, and a
  last one followed by at least 260 milliseconds, sends exactly one request, with the
  coins of the last selection, and leaves the loading indicator as it was; the timer is
  then spent and nothing more is sent however long the wait.
\<close>

theorem debounce_policy:
  "(cfg_file (prevPreviewConfigRef s) \<noteq> Some f \<or> cfg_asset (prevPreviewConfigRef s) \<noteq> asset
      \<or> cfg_includeBot (prevPreviewConfigRef s) \<noteq> includeBot
    \<longrightarrow> timer (schedule_effect (Some f) asset includeBot selected s) = Some (clock s, \<lparr>arg_file = Some f, arg_asset = asset, arg_includeBot = includeBot,
               arg_coins = selectedCoins asset selected s, arg_showLoader = True\<rparr>)
        \<and> loadingPreview (elapse 0 (schedule_effect (Some f) asset includeBot selected s)) = True
        \<and> sent (elapse 0 (schedule_effect (Some f) asset includeBot selected s)) = sent s @ [\<lparr>form_file = f, form_asset = asset, form_include_bot = includeBot,
               form_coins = join_comma (selectedCoins asset selected s),
               signal = previewReqRef s + 1\<rparr>])
   \<and> (prevPreviewConfigRef s = \<lparr>cfg_file = Some f, cfg_asset = asset, cfg_includeBot = includeBot\<rparr>
    \<longrightarrow> timer (schedule_effect (Some f) asset includeBot selected s) = Some (clock s + 260, \<lparr>arg_file = Some f, arg_asset = asset, arg_includeBot = includeBot,
               arg_coins = selectedCoins asset selected s, arg_showLoader = False\<rparr>)
        \<and> (d < 260 \<longrightarrow> sent (elapse d (schedule_effect (Some f) asset includeBot selected s)) = sent s
               \<and> loadingPreview (elapse d (schedule_effect (Some f) asset includeBot selected s)) = loadingPreview s)
        \<and> (260 \<le> d \<longrightarrow> sent (elapse d (schedule_effect (Some f) asset includeBot selected s)) = sent s @ [\<lparr>form_file = f, form_asset = asset, form_include_bot = includeBot,
               form_coins = join_comma (selectedCoins asset selected s),
               signal = previewReqRef s + 1\<rparr>]
               \<and> loadingPreview (elapse d (schedule_effect (Some f) asset includeBot selected s)) = loadingPreview s))
   \<and> schedule_effect fl asset includeBot selected (s\<lparr>timer := t\<rparr>)
       = schedule_effect fl asset includeBot selected s
   \<and> (prevPreviewConfigRef s = \<lparr>cfg_file = Some f, cfg_asset = asset, cfg_includeBot = includeBot\<rparr>
        \<and> (\<forall>(x, gap)\<in>set changes. gap < 260) \<and> 260 \<le> d
    \<longrightarrow> sent (elapse d (schedule_effect (Some f) asset includeBot selected
                (burst changes (Some f) asset includeBot s))) = sent s @ [\<lparr>form_file = f, form_asset = asset, form_include_bot = includeBot,
               form_coins = join_comma (selectedCoins asset selected s),
               signal = previewReqRef s + 1\<rparr>]
        \<and> loadingPreview (elapse d (schedule_effect (Some f) asset includeBot selected
                (burst changes (Some f) asset includeBot s))) = loadingPreview s
        \<and> timer (elapse d (schedule_effect (Some f) asset includeBot selected
                (burst changes (Some f) asset includeBot s))) = None
        \<and> sent (elapse d1 (elapse d (schedule_effect (Some f) asset includeBot selected
                (burst changes (Some f) asset includeBot s))))
            = sent s @ [\<lparr>form_file = f, form_asset = asset, form_include_bot = includeBot,
               form_coins = join_comma (selectedCoins asset selected s),
               signal = previewReqRef s + 1\<rparr>])
   \<and> prevPreviewConfigRef (schedule_effect fl asset includeBot selected s)
       = \<lparr>cfg_file = fl, cfg_asset = asset, cfg_includeBot = includeBot\<rparr>
   \<and> timer (schedule_effect None asset includeBot selected s) = None
   \<and> prevPreviewConfigRef (elapse d s) = prevPreviewConfigRef s
   \<and> prevPreviewConfigRef (report_settle k r s) = prevPreviewConfigRef s
   \<and> timer (schedule_effect (Some f) asset includeBot selected2
             (elapse d0 (schedule_effect (Some f) asset includeBot selected s)))
       = Some (clock s + d0 + 260,
               \<lparr>arg_file = Some f, arg_asset = asset, arg_includeBot = includeBot,
               arg_coins = selectedCoins asset selected2 (elapse d0 (schedule_effect (Some f) asset includeBot selected s)), arg_showLoader = False\<rparr>)"
proof (intro conjI)
  show "cfg_file (prevPreviewConfigRef s) \<noteq> Some f \<or> cfg_asset (prevPreviewConfigRef s) \<noteq> asset
      \<or> cfg_includeBot (prevPreviewConfigRef s) \<noteq> includeBot
    \<longrightarrow> timer (schedule_effect (Some f) asset includeBot selected s) = Some (clock s, \<lparr>arg_file = Some f, arg_asset = asset, arg_includeBot = includeBot,
               arg_coins = selectedCoins asset selected s, arg_showLoader = True\<rparr>)
        \<and> loadingPreview (elapse 0 (schedule_effect (Some f) asset includeBot selected s)) = True
        \<and> sent (elapse 0 (schedule_effect (Some f) asset includeBot selected s)) = sent s @ [\<lparr>form_file = f, form_asset = asset, form_include_bot = includeBot,
               form_coins = join_comma (selectedCoins asset selected s),
               signal = previewReqRef s + 1\<rparr>]"
    using structural_call[where s=s and f=f and asset=asset and includeBot=includeBot
        and selected=selected]
      structural_iff[where s=s and f=f and asset=asset and includeBot=includeBot]
    by blast
  show "prevPreviewConfigRef s = \<lparr>cfg_file = Some f, cfg_asset = asset, cfg_includeBot = includeBot\<rparr>
    \<longrightarrow> timer (schedule_effect (Some f) asset includeBot selected s) = Some (clock s + 260, \<lparr>arg_file = Some f, arg_asset = asset, arg_includeBot = includeBot,
               arg_coins = selectedCoins asset selected s, arg_showLoader = False\<rparr>)
        \<and> (d < 260 \<longrightarrow> sent (elapse d (schedule_effect (Some f) asset includeBot selected s)) = sent s
               \<and> loadingPreview (elapse d (schedule_effect (Some f) asset includeBot selected s)) = loadingPreview s)
        \<and> (260 \<le> d \<longrightarrow> sent (elapse d (schedule_effect (Some f) asset includeBot selected s)) = sent s @ [\<lparr>form_file = f, form_asset = asset, form_include_bot = includeBot,
               form_coins = join_comma (selectedCoins asset selected s),
               signal = previewReqRef s + 1\<rparr>]
               \<and> loadingPreview (elapse d (schedule_effect (Some f) asset includeBot selected s)) = loadingPreview s)"
    using refinement_call[where s=s and f=f and asset=asset and includeBot=includeBot
        and selected=selected]
    by blast
  show "schedule_effect fl asset includeBot selected (s\<lparr>timer := t\<rparr>)
       = schedule_effect fl asset includeBot selected s"
    by (rule schedule_effect_replaces)
  show "prevPreviewConfigRef s = \<lparr>cfg_file = Some f, cfg_asset = asset, cfg_includeBot = includeBot\<rparr>
        \<and> (\<forall>(x, gap)\<in>set changes. gap < 260) \<and> 260 \<le> d
    \<longrightarrow> sent (elapse d (schedule_effect (Some f) asset includeBot selected
                (burst changes (Some f) asset includeBot s))) = sent s @ [\<lparr>form_file = f, form_asset = asset, form_include_bot = includeBot,
               form_coins = join_comma (selectedCoins asset selected s),
               signal = previewReqRef s + 1\<rparr>]
        \<and> loadingPreview (elapse d (schedule_effect (Some f) asset includeBot selected
                (burst changes (Some f) asset includeBot s))) = loadingPreview s
        \<and> timer (elapse d (schedule_effect (Some f) asset includeBot selected
                (burst changes (Some f) asset includeBot s))) = None
        \<and> sent (elapse d1 (elapse d (schedule_effect (Some f) asset includeBot selected
                (burst changes (Some f) asset includeBot s))))
            = sent s @ [\<lparr>form_file = f, form_asset = asset, form_include_bot = includeBot,
               form_coins = join_comma (selectedCoins asset selected s),
               signal = previewReqRef s + 1\<rparr>]"
  proof
    assume a: "prevPreviewConfigRef s = \<lparr>cfg_file = Some f, cfg_asset = asset, cfg_includeBot = includeBot\<rparr>
        \<and> (\<forall>(x, gap)\<in>set changes. gap < 260) \<and> 260 \<le> d"
    note b = burst_collapses[where s=s and f=f and asset=asset and includeBot=includeBot
        and changes=changes and d=d and selected=selected]
    have 1: "sent (elapse d (schedule_effect (Some f) asset includeBot selected
                (burst changes (Some f) asset includeBot s))) = sent s @ [\<lparr>form_file = f, form_asset = asset, form_include_bot = includeBot,
               form_coins = join_comma (selectedCoins asset selected s),
               signal = previewReqRef s + 1\<rparr>]"
      using a b(1) by blast
    have 2: "loadingPreview (elapse d (schedule_effect (Some f) asset includeBot selected
                (burst changes (Some f) asset includeBot s))) = loadingPreview s"
      using a b(2) by blast
    have 3: "timer (elapse d (schedule_effect (Some f) asset includeBot selected
                (burst changes (Some f) asset includeBot s))) = None"
      using a b(3) by blast
    have 4: "sent (elapse d1 (elapse d (schedule_effect (Some f) asset includeBot selected
                (burst changes (Some f) asset includeBot s))))
            = sent s @ [\<lparr>form_file = f, form_asset = asset, form_include_bot = includeBot,
               form_coins = join_comma (selectedCoins asset selected s),
               signal = previewReqRef s + 1\<rparr>]"
      using elapse_idle[OF 3, of d1] 1 by simp
    show "sent (elapse d (schedule_effect (Some f) asset includeBot selected
                (burst changes (Some f) asset includeBot s))) = sent s @ [\<lparr>form_file = f, form_asset = asset, form_include_bot = includeBot,
               form_coins = join_comma (selectedCoins asset selected s),
               signal = previewReqRef s + 1\<rparr>]
        \<and> loadingPreview (elapse d (schedule_effect (Some f) asset includeBot selected
                (burst changes (Some f) asset includeBot s))) = loadingPreview s
        \<and> timer (elapse d (schedule_effect (Some f) asset includeBot selected
                (burst changes (Some f) asset includeBot s))) = None
        \<and> sent (elapse d1 (elapse d (schedule_effect (Some f) asset includeBot selected
                (burst changes (Some f) asset includeBot s))))
            = sent s @ [\<lparr>form_file = f, form_asset = asset, form_include_bot = includeBot,
               form_coins = join_comma (selectedCoins asset selected s),
               signal = previewReqRef s + 1\<rparr>]"
      using 1 2 3 4 by (intro conjI)
  qed
  show "prevPreviewConfigRef (schedule_effect fl asset includeBot selected s)
       = \<lparr>cfg_file = fl, cfg_asset = asset, cfg_includeBot = includeBot\<rparr>"
    by (rule schedule_effect_records)
  show "timer (schedule_effect None asset includeBot selected s) = None"
    by (rule schedule_effect_no_file)
  show "prevPreviewConfigRef (elapse d s) = prevPreviewConfigRef s"
    by (rule elapse_keeps_config)
  show "prevPreviewConfigRef (report_settle k r s) = prevPreviewConfigRef s"
    by (rule report_settle_keeps_config)
  show "timer (schedule_effect (Some f) asset includeBot selected2
             (elapse d0 (schedule_effect (Some f) asset includeBot selected s)))
       = Some (clock s + d0 + 260,
               \<lparr>arg_file = Some f, arg_asset = asset, arg_includeBot = includeBot,
               arg_coins = selectedCoins asset selected2 (elapse d0 (schedule_effect (Some f) asset includeBot selected s)), arg_showLoader = False\<rparr>)"
    by (rule next_run_is_refinement)
qed

theorem debounce_policy_witness:
  "sent (elapse 0 (schedule_effect (Some 7) ''USD'' True [] report_init))
     = [\<lparr>form_file = 7, form_asset = ''USD'', form_include_bot = True, form_coins = [],
         signal = 1\<rparr>]
   \<and> loadingPreview (elapse 0 (schedule_effect (Some 7) ''USD'' True [] report_init)) = True
   \<and> prevPreviewConfigRef
       (report_settle 1
         (Reply 200 (Parsed \<lparr>detail = None, payload_meta = None,
          payload_USD = Some [''ETH'', ''BTC'', ''XRP''], payload_THB = None,
          payload_rawPreview = None, payload_cleanPreview = None\<rparr>))
         (elapse 0 (schedule_effect (Some 7) ''USD'' True [] report_init)))
     = \<lparr>cfg_file = Some 7, cfg_asset = ''USD'', cfg_includeBot = True\<rparr>
   \<and> sent (elapse 259 (schedule_effect (Some 7) ''USD'' True [''ETH'']
       (report_settle 1
         (Reply 200 (Parsed \<lparr>detail = None, payload_meta = None,
          payload_USD = Some [''ETH'', ''BTC'', ''XRP''], payload_THB = None,
          payload_rawPreview = None, payload_cleanPreview = None\<rparr>))
         (elapse 0 (schedule_effect (Some 7) ''USD'' True [] report_init)))))
     = [\<lparr>form_file = 7, form_asset = ''USD'', form_include_bot = True, form_coins = [],
         signal = 1\<rparr>]
   \<and> sent (elapse 260 (schedule_effect (Some 7) ''USD'' True [''ETH'']
        (burst [([''XRP''], 100), ([''XRP'', ''ETH''], 259)] (Some 7) ''USD'' True
          (report_settle 1
         (Reply 200 (Parsed \<lparr>detail = None, payload_meta = None,
          payload_USD = Some [''ETH'', ''BTC'', ''XRP''], payload_THB = None,
          payload_rawPreview = None, payload_cleanPreview = None\<rparr>))
         (elapse 0 (schedule_effect (Some 7) ''USD'' True [] report_init))))))
     = [\<lparr>form_file = 7, form_asset = ''USD'', form_include_bot = True, form_coins = [],
         signal = 1\<rparr>,
        \<lparr>form_file = 7, form_asset = ''USD'', form_include_bot = True, form_coins = ''ETH'',
         signal = 2\<rparr>]
   \<and> loadingPreview (elapse 260 (schedule_effect (Some 7) ''USD'' True [''ETH'']
        (burst [([''XRP''], 100), ([''XRP'', ''ETH''], 259)] (Some 7) ''USD'' True
          (report_settle 1
         (Reply 200 (Parsed \<lparr>detail = None, payload_meta = None,
          payload_USD = Some [''ETH'', ''BTC'', ''XRP''], payload_THB = None,
          payload_rawPreview = None, payload_cleanPreview = None\<rparr>))
         (elapse 0 (schedule_effect (Some 7) ''USD'' True [] report_init)))))) = False
   \<and> sent (elapse 5000 (elapse 260 (schedule_effect (Some 7) ''USD'' True [''ETH'']
        (burst [([''XRP''], 100), ([''XRP'', ''ETH''], 259)] (Some 7) ''USD'' True
          (report_settle 1
         (Reply 200 (Parsed \<lparr>detail = None, payload_meta = None,
          payload_USD = Some [''ETH'', ''BTC'', ''XRP''], payload_THB = None,
          payload_rawPreview = None, payload_cleanPreview = None\<rparr>))
         (elapse 0 (schedule_effect (Some 7) ''USD'' True [] report_init)))))))
     = [\<lparr>form_file = 7, form_asset = ''USD'', form_include_bot = True, form_coins = [],
         signal = 1\<rparr>,
        \<lparr>form_file = 7, form_asset = ''USD'', form_include_bot = True, form_coins = ''ETH'',
         signal = 2\<rparr>]"
proof -
  let ?pay = "Reply 200 (Parsed \<lparr>detail = None, payload_meta = None,
          payload_USD = Some [''ETH'', ''BTC'', ''XRP''], payload_THB = None,
          payload_rawPreview = None, payload_cleanPreview = None\<rparr>)"
  let ?s2 = "elapse 0 (schedule_effect (Some 7) ''USD'' True [] report_init)"
  let ?s3 = "report_settle 1 ?pay ?s2"
  let ?ch = "[([''XRP''], 100::nat), ([''XRP'', ''ETH''], 259)]"
  let ?fin = "elapse 260 (schedule_effect (Some 7) ''USD'' True [''ETH'']
        (burst ?ch (Some 7) ''USD'' True ?s3))"
  note a = debounce_policy[where s=report_init and f=7 and asset="''USD''" and includeBot=True
      and selected="[]" and fl="Some 7" and d=0 and k=1 and r="?pay"]
  note b = debounce_policy[where s="?s3" and f=7 and asset="''USD''" and includeBot=True
      and selected="[''ETH'']" and changes="?ch" and ?d1.0=5000]
  have h0: "cfg_file (prevPreviewConfigRef report_init) \<noteq> Some 7"
    by (simp add: report_init_def)
  have c0: "selectedCoins ''USD'' [] report_init = []"
    by (simp add: selectedCoins_def)
  have i: "sent report_init = []" "previewReqRef report_init = 0"
    by (simp_all add: report_init_def)
  have r1: "sent ?s2 = [\<lparr>form_file = 7, form_asset = ''USD'', form_include_bot = True, form_coins = [],
         signal = 1\<rparr>]"
    and r2: "loadingPreview ?s2 = True"
    using a h0 by (simp_all add: c0 i)
  have h1: "prevPreviewConfigRef ?s3 = \<lparr>cfg_file = Some 7, cfg_asset = ''USD'', cfg_includeBot = True\<rparr>"
    using a debounce_policy[where s="schedule_effect (Some 7) ''USD'' True [] report_init" and d=0]
      debounce_policy[where s="?s2" and k=1 and r="?pay"]
    by simp
  have h2: "\<forall>(x, gap)\<in>set ?ch. gap < 260" by simp
  have n2: "previewReqRef ?s2 = 1"
    by (simp add: elapse_def schedule_effect_def callPreview_def report_init_def)
  have j: "sent ?s3 = sent ?s2" "previewReqRef ?s3 = 1" "loadingPreview ?s3 = False"
    "coinsUSD ?s3 = [''ETH'', ''BTC'', ''XRP'']"
    using n2 by (simp_all add: report_settle_def report_try_def res_ok_def or_else_def)
  have c1: "selectedCoins ''USD'' [''ETH''] ?s3 = [''ETH'']"
    using j(4)
    by (simp add: selectedCoins_def orderedSelectedCoins_def js_new_Map_def truthy_def
        toLowerCase_def lowerChar_def)
  have r3: "sent (elapse 259 (schedule_effect (Some 7) ''USD'' True [''ETH''] ?s3))
      = [\<lparr>form_file = 7, form_asset = ''USD'', form_include_bot = True, form_coins = [],
         signal = 1\<rparr>]"
    using b[where d=259] h1 j(1) r1 by simp
  have r4: "sent ?fin = [\<lparr>form_file = 7, form_asset = ''USD'', form_include_bot = True, form_coins = [],
         signal = 1\<rparr>,
        \<lparr>form_file = 7, form_asset = ''USD'', form_include_bot = True, form_coins = ''ETH'',
         signal = 2\<rparr>]"
    and r5: "loadingPreview ?fin = False"
    and r6: "sent (elapse 5000 ?fin) = [\<lparr>form_file = 7, form_asset = ''USD'', form_include_bot = True, form_coins = [],
         signal = 1\<rparr>,
        \<lparr>form_file = 7, form_asset = ''USD'', form_include_bot = True, form_coins = ''ETH'',
         signal = 2\<rparr>]"
    using b[where d=260] h1 h2 c1 j r1 by simp_all
  show ?thesis by (intro conjI r1 r2 h1 r3 r4 r5 r6)
qed

end
